theory Spec2Isabelle
  imports Complex_Main
begin

section \<open>The device simulator of Tester/sim\_device.py\<close>

text \<open>
  The theory embeds the per-device loop of \<^verbatim>\<open>main\<close> in \<^verbatim>\<open>src/Tester/sim_device.py\<close>:
  the settings read of lines 238-243, the merge of a pending command patch of lines
  246-276, the one-time acknowledgement of lines 279-281, the environment step of lines
  284-286, the control logic of lines 289-295, the change acknowledgement of lines
  298-300 and the reading of line 303. Python's local variables are fields of a state
  record; every statement that can raise is a step that returns the state reached so
  far together with the exception, and the handler of line 310 keeps that state.
\<close>

subsection \<open>JSON values and the Python runtime\<close>

text \<open>
  What \<^verbatim>\<open>json.loads\<close> and \<^verbatim>\<open>r.json()\<close> return. A float is a real number (NaN, the
  infinities and rounding are not modelled); an object is the list of its key/value
  pairs, read with \<open>map_of\<close>.
\<close>

datatype json =
    JNull
  | JBool bool
  | JInt int
  | JFloat real
  | JStr string
  | JArr "json list"
  | JObj "(string \<times> json) list"

datatype pyerr = TypeError | ValueError | AttributeError | UnboundLocalError | RequestException

text \<open>
  The conversions of the Python runtime that the program calls on text are parameters of
  the model: \<^verbatim>\<open>int(s)\<close> and \<^verbatim>\<open>float(s)\<close> on a string (\<open>None\<close> is ValueError) and
  \<^verbatim>\<open>str(v)\<close> on a value that is not a string. Every theorem below holds for every
  such runtime.
\<close>

record pyrt =
  int_of_str :: "string \<Rightarrow> int option"
  float_of_str :: "string \<Rightarrow> real option"
  str_of :: "json \<Rightarrow> string"

text \<open>Python truthiness, as \<^verbatim>\<open>bool(v)\<close>, \<^verbatim>\<open>v or d\<close> and \<^verbatim>\<open>if v:\<close> use it.\<close>

fun truthy :: "json \<Rightarrow> bool" where
  "truthy JNull = False"
| "truthy (JBool b) = b"
| "truthy (JInt i) = (i \<noteq> 0)"
| "truthy (JFloat r) = (r \<noteq> 0)"
| "truthy (JStr s) = (s \<noteq> [])"
| "truthy (JArr xs) = (xs \<noteq> [])"
| "truthy (JObj kv) = (kv \<noteq> [])"

definition py_or :: "json \<Rightarrow> json \<Rightarrow> json" where
  "py_or a b = (if truthy a then a else b)"

text \<open>\<^verbatim>\<open>int(x)\<close> of a float truncates towards zero.\<close>

definition py_trunc :: "real \<Rightarrow> int" where
  "py_trunc r = (if 0 \<le> r then \<lfloor>r\<rfloor> else \<lceil>r\<rceil>)"

fun py_int :: "pyrt \<Rightarrow> json \<Rightarrow> pyerr + int" where
  "py_int L JNull = Inl TypeError"
| "py_int L (JBool b) = Inr (if b then 1 else 0)"
| "py_int L (JInt i) = Inr i"
| "py_int L (JFloat r) = Inr (py_trunc r)"
| "py_int L (JStr s) = (case int_of_str L s of None \<Rightarrow> Inl ValueError | Some i \<Rightarrow> Inr i)"
| "py_int L (JArr xs) = Inl TypeError"
| "py_int L (JObj kv) = Inl TypeError"

fun py_float :: "pyrt \<Rightarrow> json \<Rightarrow> pyerr + real" where
  "py_float L JNull = Inl TypeError"
| "py_float L (JBool b) = Inr (if b then 1 else 0)"
| "py_float L (JInt i) = Inr (real_of_int i)"
| "py_float L (JFloat r) = Inr r"
| "py_float L (JStr s) = (case float_of_str L s of None \<Rightarrow> Inl ValueError | Some r \<Rightarrow> Inr r)"
| "py_float L (JArr xs) = Inl TypeError"
| "py_float L (JObj kv) = Inl TypeError"

fun py_str :: "pyrt \<Rightarrow> json \<Rightarrow> string" where
  "py_str L (JStr s) = s"
| "py_str L v = str_of L v"

text \<open>\<^verbatim>\<open>str.lower\<close> on the ASCII letters; other bytes are kept.\<close>

definition lower_char :: "char \<Rightarrow> char" where
  "lower_char c =
     (case map_of (zip ''ABCDEFGHIJKLMNOPQRSTUVWXYZ'' ''abcdefghijklmnopqrstuvwxyz'') c of
        None \<Rightarrow> c
      | Some d \<Rightarrow> d)"

definition lower :: "string \<Rightarrow> string" where
  "lower s = map lower_char s"

text \<open>\<^verbatim>\<open>k in p\<close> and \<^verbatim>\<open>p.get(k)\<close> on a dictionary.\<close>

definition has_key :: "(string \<times> json) list \<Rightarrow> string \<Rightarrow> bool" where
  "has_key p k = (map_of p k \<noteq> None)"

definition dict_get :: "(string \<times> json) list \<Rightarrow> string \<Rightarrow> json \<Rightarrow> json" where
  "dict_get p k d = (case map_of p k of None \<Rightarrow> d | Some v \<Rightarrow> v)"

subsection \<open>Environment model (lines 137-138 and 284-286)\<close>

definition clamp :: "int \<Rightarrow> int \<Rightarrow> int \<Rightarrow> int" where
  "clamp x lo hi = max lo (min hi x)"

text \<open>
  \<^verbatim>\<open>int(5 * math.sin(time.time()/60.0))\<close> at the clock reading \<open>t\<close>. The step below takes
  the value of this term as an integer input, so that it can be evaluated.
\<close>

definition sine_term :: "real \<Rightarrow> int" where
  "sine_term t = py_trunc (5 * sin (t / 60))"

definition advance :: "int \<Rightarrow> int \<Rightarrow> int \<Rightarrow> int" where
  "advance m d s = clamp (m + (d + s)) 0 100"

definition raw_of :: "int \<Rightarrow> int" where
  "raw_of m = 1400 + py_trunc (real_of_int ((100 - m) * (3200 - 1400)) / 100)"

subsection \<open>Control logic (lines 289-295)\<close>

definition control_logic :: "string \<Rightarrow> bool \<Rightarrow> int \<Rightarrow> int \<Rightarrow> int \<Rightarrow> bool \<Rightarrow> bool" where
  "control_logic md ov on_b off_a m p =
     (if md = ''manual'' then ov
      else if \<not> p \<and> m < on_b then True
      else if p \<and> m > off_a then False
      else p)"

subsection \<open>Requests, tick inputs and the loop's variables\<close>

text \<open>
  The requests that returned a response, in the order sent: \<open>Ack pumpOn pumpMode note\<close>
  for \<^verbatim>\<open>post_ack\<close> and \<open>Reading moisture pump_on raw\<close> for \<^verbatim>\<open>post_reading\<close>. Both
  functions return normally on an HTTP error status and raise only when the request
  itself raises.
\<close>

datatype event =
    Ack bool string string
  | Reading int bool int

text \<open>
  \<^verbatim>\<open>get_settings\<close> (lines 92-99): the request or the decoding of its body raises, the
  status is not OK, or the body decodes to a JSON value.
\<close>

datatype fetch_result = FetchRaises | FetchNotOk | FetchBody json

text \<open>
  What one tick reads from outside: the settings response, the result of
  \<^verbatim>\<open>random.randint(-2, 2)\<close>, the value of the sine term, and for each request of the tick
  whether it returns (\<open>True\<close>) or raises.
\<close>

record tick_input =
  fetch :: fetch_result
  draw :: int
  sine :: int
  cmd_ack_ok :: bool
  applied_ack_ok :: bool
  change_ack_ok :: bool
  reading_ok :: bool

text \<open>
  The variables of \<^verbatim>\<open>main\<close> that live across ticks. A local that has not been assigned
  yet is \<open>None\<close>; \<open>pending\<close> is \<^verbatim>\<open>pending["patch"]\<close> and \<open>sse_nudge\<close> is
  \<^verbatim>\<open>sse_nudge["flag"]\<close>, the two cells shared with the listener thread.
\<close>

record state =
  moisture :: int
  pump_on :: bool
  last_ack_state :: "(bool \<times> string) option"
  settings_applied_acked :: bool
  pending :: "(string \<times> json) list option"
  sse_nudge :: bool
  mode :: "string option"
  override_on :: "bool option"
  on_below :: "int option"
  off_above :: "int option"
  send_interval :: "real option"
  raw :: "int option"
  out :: "event list"

text \<open>Lines 215-218, 223 and 227; \<open>m0\<close> is the result of \<^verbatim>\<open>random.randint(35, 60)\<close>.\<close>

definition initial :: "int \<Rightarrow> state" where
  "initial m0 =
     \<lparr>moisture = m0, pump_on = False, last_ack_state = None,
      settings_applied_acked = False, pending = None, sse_nudge = False,
      mode = None, override_on = None, on_below = None, off_above = None,
      send_interval = None, raw = None, out = []\<rparr>"

text \<open>
  A statement that may raise: the state it reaches and the exception, if any. A block
  runs its statements in order and stops at the first exception.
\<close>

type_synonym step = "state \<Rightarrow> state \<times> pyerr option"

fun run_steps :: "step list \<Rightarrow> step" where
  "run_steps [] st = (st, None)"
| "run_steps (f # fs) st =
     (case f st of
        (st', None) \<Rightarrow> run_steps fs st'
      | (st', Some e) \<Rightarrow> (st', Some e))"

subsection \<open>Reading the settings (lines 92-99 and 238-243)\<close>

definition get_settings :: "fetch_result \<Rightarrow> pyerr + json" where
  "get_settings f =
     (case f of
        FetchRaises \<Rightarrow> Inl RequestException
      | FetchNotOk \<Rightarrow> Inr (JObj [])
      | FetchBody j \<Rightarrow> Inr (py_or j (JObj [])))"

text \<open>\<^verbatim>\<open>s.get(k, d)\<close>: only a dictionary has \<^verbatim>\<open>get\<close>.\<close>

definition json_get :: "json \<Rightarrow> string \<Rightarrow> json \<Rightarrow> pyerr + json" where
  "json_get s k d = (case s of JObj kv \<Rightarrow> Inr (dict_get kv k d) | _ \<Rightarrow> Inl AttributeError)"

definition assign_mode :: "json \<Rightarrow> step" where
  "assign_mode s st =
     (case json_get s ''pumpMode'' JNull of
        Inl e \<Rightarrow> (st, Some e)
      | Inr v \<Rightarrow>
          (case py_or v (JStr ''auto'') of
             JStr t \<Rightarrow> (st\<lparr>mode := Some (lower t)\<rparr>, None)
           | _ \<Rightarrow> (st, Some AttributeError)))"

definition assign_override_on :: "json \<Rightarrow> step" where
  "assign_override_on s st =
     (case json_get s ''overridePumpOn'' (JBool False) of
        Inl e \<Rightarrow> (st, Some e)
      | Inr v \<Rightarrow> (st\<lparr>override_on := Some (truthy v)\<rparr>, None))"

definition assign_on_below :: "pyrt \<Rightarrow> json \<Rightarrow> step" where
  "assign_on_below L s st =
     (case json_get s ''pumpOnBelow'' (JInt 35) of
        Inl e \<Rightarrow> (st, Some e)
      | Inr v \<Rightarrow>
          (case py_int L v of
             Inl e \<Rightarrow> (st, Some e)
           | Inr n \<Rightarrow> (st\<lparr>on_below := Some n\<rparr>, None)))"

definition assign_off_above :: "pyrt \<Rightarrow> json \<Rightarrow> step" where
  "assign_off_above L s st =
     (case json_get s ''pumpOffAbove'' (JInt 45) of
        Inl e \<Rightarrow> (st, Some e)
      | Inr v \<Rightarrow>
          (case py_int L v of
             Inl e \<Rightarrow> (st, Some e)
           | Inr n \<Rightarrow> (st\<lparr>off_above := Some n\<rparr>, None)))"

text \<open>\<open>iv\<close> is \<^verbatim>\<open>args.interval\<close>, a float.\<close>

definition assign_send_interval :: "pyrt \<Rightarrow> real \<Rightarrow> json \<Rightarrow> step" where
  "assign_send_interval L iv s st =
     (case json_get s ''sendIntervalSec'' JNull of
        Inl e \<Rightarrow> (st, Some e)
      | Inr v \<Rightarrow>
          (if truthy v then
             (case py_float L v of
                Inl e \<Rightarrow> (st, Some e)
              | Inr r \<Rightarrow> (st\<lparr>send_interval := Some r\<rparr>, None))
           else (st\<lparr>send_interval := Some iv\<rparr>, None)))"

definition fetch_settings :: "pyrt \<Rightarrow> real \<Rightarrow> tick_input \<Rightarrow> step" where
  "fetch_settings L iv i st =
     (case get_settings (fetch i) of
        Inl e \<Rightarrow> (st, Some e)
      | Inr s \<Rightarrow>
          run_steps [assign_mode s, assign_override_on s, assign_on_below L s,
                     assign_off_above L s, assign_send_interval L iv s] st)"

subsection \<open>Merging a pending command patch (lines 246-276)\<close>

definition take_patch :: step where
  "take_patch st = (st\<lparr>pending := None\<rparr>, None)"

text \<open>
  \<^verbatim>\<open>mode = str(p.get("pumpMode") or mode).lower()\<close>: the variable is read only when the
  patch's value is falsy.
\<close>

definition patch_mode :: "pyrt \<Rightarrow> (string \<times> json) list \<Rightarrow> step" where
  "patch_mode L p st =
     (if has_key p ''pumpMode'' then
        (let v = dict_get p ''pumpMode'' JNull in
         if truthy v then (st\<lparr>mode := Some (lower (py_str L v))\<rparr>, None)
         else (case mode st of
                 None \<Rightarrow> (st, Some UnboundLocalError)
               | Some md \<Rightarrow> (st\<lparr>mode := Some (lower md)\<rparr>, None)))
      else (st, None))"

definition patch_override_on :: "(string \<times> json) list \<Rightarrow> step" where
  "patch_override_on p st =
     (if has_key p ''overridePumpOn''
      then (st\<lparr>override_on := Some (truthy (dict_get p ''overridePumpOn'' JNull))\<rparr>, None)
      else (st, None))"

definition patch_on_below :: "pyrt \<Rightarrow> (string \<times> json) list \<Rightarrow> step" where
  "patch_on_below L p st =
     (if has_key p ''pumpOnBelow'' then
        (let v = dict_get p ''pumpOnBelow'' JNull in
         if truthy v then
           (case py_int L v of
              Inl e \<Rightarrow> (st, Some e)
            | Inr n \<Rightarrow> (st\<lparr>on_below := Some n\<rparr>, None))
         else (case on_below st of
                 None \<Rightarrow> (st, Some UnboundLocalError)
               | Some n \<Rightarrow> (st\<lparr>on_below := Some n\<rparr>, None)))
      else (st, None))"

definition patch_off_above :: "pyrt \<Rightarrow> (string \<times> json) list \<Rightarrow> step" where
  "patch_off_above L p st =
     (if has_key p ''pumpOffAbove'' then
        (let v = dict_get p ''pumpOffAbove'' JNull in
         if truthy v then
           (case py_int L v of
              Inl e \<Rightarrow> (st, Some e)
            | Inr n \<Rightarrow> (st\<lparr>off_above := Some n\<rparr>, None))
         else (case off_above st of
                 None \<Rightarrow> (st, Some UnboundLocalError)
               | Some n \<Rightarrow> (st\<lparr>off_above := Some n\<rparr>, None)))
      else (st, None))"

text \<open>Lines 257-261: the only conversion in a \<^verbatim>\<open>try\<close> of its own; any exception is dropped.\<close>

definition patch_send_interval :: "pyrt \<Rightarrow> (string \<times> json) list \<Rightarrow> step" where
  "patch_send_interval L p st =
     (if has_key p ''sendIntervalSec'' then
        (let v = dict_get p ''sendIntervalSec'' JNull in
         if truthy v then
           (case py_float L v of
              Inl e \<Rightarrow> (st, None)
            | Inr r \<Rightarrow> (st\<lparr>send_interval := Some r\<rparr>, None))
         else (case send_interval st of
                 None \<Rightarrow> (st, None)
               | Some r \<Rightarrow> (st\<lparr>send_interval := Some r\<rparr>, None)))
      else (st, None))"

text \<open>
  Lines 264-276. The decision of lines 265-271 is the control logic of lines 289-295 on
  the moisture of the previous tick; the four variables it reads have been assigned by
  lines 239-243 of the same tick (\<open>tick_reads_assigned\<close> below), so the step reads
  all four at once.
\<close>

definition command_ack :: "tick_input \<Rightarrow> step" where
  "command_ack i st =
     (case (mode st, override_on st, on_below st, off_above st) of
        (Some md, Some ov, Some ob, Some oa) \<Rightarrow>
          (let desired_pump = control_logic md ov ob oa (moisture st) (pump_on st) in
           if cmd_ack_ok i then
             (st\<lparr>out := out st @ [Ack desired_pump md ''cmd''],
                 last_ack_state := Some (desired_pump, md),
                 pump_on := desired_pump\<rparr>, None)
           else (st, Some RequestException))
      | _ \<Rightarrow> (st, Some UnboundLocalError))"

text \<open>Lines 249-261: the five fields of the patch, in the order of the source.\<close>

definition merge_patch :: "pyrt \<Rightarrow> (string \<times> json) list \<Rightarrow> step" where
  "merge_patch L p =
     run_steps [patch_mode L p, patch_override_on p, patch_on_below L p,
                patch_off_above L p, patch_send_interval L p]"

text \<open>\<^verbatim>\<open>if pending["patch"]:\<close> is false for \<^verbatim>\<open>None\<close> and for the empty dictionary.\<close>

definition apply_patch :: "pyrt \<Rightarrow> tick_input \<Rightarrow> step" where
  "apply_patch L i st =
     (case pending st of
        None \<Rightarrow> (st, None)
      | Some p \<Rightarrow>
          (if p = [] then (st, None)
           else run_steps [take_patch, merge_patch L p, command_ack i] st))"

subsection \<open>The rest of the tick (lines 279-303)\<close>

definition ack_settings_applied :: "tick_input \<Rightarrow> step" where
  "ack_settings_applied i st =
     (if \<not> settings_applied_acked st then
        (case mode st of
           None \<Rightarrow> (st, Some UnboundLocalError)
         | Some md \<Rightarrow>
             (if applied_ack_ok i then
                (st\<lparr>out := out st @ [Ack (pump_on st) md ''settings applied''],
                    settings_applied_acked := True\<rparr>, None)
              else (st, Some RequestException)))
      else (st, None))"

definition environment :: "tick_input \<Rightarrow> step" where
  "environment i st =
     (let m = advance (moisture st) (draw i) (sine i)
      in (st\<lparr>moisture := m, raw := Some (raw_of m)\<rparr>, None))"

definition control :: step where
  "control st =
     (case (mode st, override_on st, on_below st, off_above st) of
        (Some md, Some ov, Some ob, Some oa) \<Rightarrow>
          (st\<lparr>pump_on := control_logic md ov ob oa (moisture st) (pump_on st)\<rparr>, None)
      | _ \<Rightarrow> (st, Some UnboundLocalError))"

definition ack_change :: "tick_input \<Rightarrow> step" where
  "ack_change i st =
     (case mode st of
        None \<Rightarrow> (st, Some UnboundLocalError)
      | Some md \<Rightarrow>
          (if last_ack_state st = None \<or> last_ack_state st \<noteq> Some (pump_on st, md) then
             (if change_ack_ok i then
                (st\<lparr>out := out st @ [Ack (pump_on st) md ''sim''],
                    last_ack_state := Some (pump_on st, md)\<rparr>, None)
              else (st, Some RequestException))
           else (st, None)))"

definition report_reading :: "tick_input \<Rightarrow> step" where
  "report_reading i st =
     (case raw st of
        None \<Rightarrow> (st, Some UnboundLocalError)
      | Some r \<Rightarrow>
          (if reading_ok i
           then (st\<lparr>out := out st @ [Reading (moisture st) (pump_on st) r]\<rparr>, None)
           else (st, Some RequestException)))"

text \<open>
  The body of the \<^verbatim>\<open>try\<close> of lines 236-309. The manifest poll of lines 306-309 changes
  no variable and is left out. The handler of lines 310-311 prints the exception and the
  loop goes on from the state reached.
\<close>

definition tick_body :: "pyrt \<Rightarrow> real \<Rightarrow> tick_input \<Rightarrow> step" where
  "tick_body L iv i =
     run_steps [fetch_settings L iv i, apply_patch L i, ack_settings_applied i,
                environment i, control, ack_change i, report_reading i]"

definition tick :: "pyrt \<Rightarrow> real \<Rightarrow> tick_input \<Rightarrow> state \<Rightarrow> state" where
  "tick L iv i st = fst (tick_body L iv i st)"

definition tick_error :: "pyrt \<Rightarrow> real \<Rightarrow> tick_input \<Rightarrow> state \<Rightarrow> pyerr option" where
  "tick_error L iv i st = snd (tick_body L iv i st)"

text \<open>The requests of one tick: what it appends to \<open>out\<close>.\<close>

definition emitted :: "pyrt \<Rightarrow> real \<Rightarrow> tick_input \<Rightarrow> state \<Rightarrow> event list" where
  "emitted L iv i st = drop (length (out st)) (out (tick L iv i st))"

subsection \<open>The listener's callbacks (lines 224-231) and runs\<close>

definition on_settings :: "state \<Rightarrow> state" where
  "on_settings st = st\<lparr>sse_nudge := True\<rparr>"

definition on_command :: "(string \<times> json) list \<Rightarrow> state \<Rightarrow> state" where
  "on_command patch st = st\<lparr>pending := Some patch, sse_nudge := True\<rparr>"

text \<open>
  A run interleaves ticks with the listener's callbacks; a callback runs between two
  ticks. The sleep of lines 314-322 is not modelled. It reads \<^verbatim>\<open>send_interval\<close> outside
  the \<^verbatim>\<open>try\<close>: a process whose first tick raised before line 243 ends there, so what
  it did is a shorter run.
\<close>

datatype action = Tick tick_input | Command "(string \<times> json) list" | SettingsEvent

fun act :: "pyrt \<Rightarrow> real \<Rightarrow> action \<Rightarrow> state \<Rightarrow> state" where
  "act L iv (Tick i) st = tick L iv i st"
| "act L iv (Command patch) st = on_command patch st"
| "act L iv SettingsEvent st = on_settings st"

fun run :: "pyrt \<Rightarrow> real \<Rightarrow> action list \<Rightarrow> state \<Rightarrow> state" where
  "run L iv [] st = st"
| "run L iv (a # as) st = run L iv as (act L iv a st)"

subsection \<open>A runtime for concrete evaluation\<close>

text \<open>
  The theorems are stated for every runtime. Where a run is evaluated on a concrete
  input, the runtime below is used: it reads a string as a number when the string is a
  plain decimal integer with an optional minus sign, and prints \<^verbatim>\<open>None\<close>, \<^verbatim>\<open>True\<close>
  and \<^verbatim>\<open>False\<close>. It agrees with Python on these; the inputs evaluated below convert no
  other text.
\<close>

definition digit_of :: "char \<Rightarrow> nat option" where
  "digit_of c = map_of (zip ''0123456789'' [0, 1, 2, 3, 4, 5, 6, 7, 8, 9]) c"

fun read_digits :: "nat \<Rightarrow> string \<Rightarrow> nat option" where
  "read_digits acc [] = Some acc"
| "read_digits acc (c # cs) =
     (case digit_of c of None \<Rightarrow> None | Some d \<Rightarrow> read_digits (10 * acc + d) cs)"

definition read_decimal :: "string \<Rightarrow> int option" where
  "read_decimal s =
     (case s of
        [] \<Rightarrow> None
      | c # cs \<Rightarrow>
          (if c = CHR ''-''
           then (if cs = [] then None else map_option (\<lambda>n. - int n) (read_digits 0 cs))
           else map_option int (read_digits 0 s)))"

definition print_plain :: "json \<Rightarrow> string" where
  "print_plain v =
     (case v of
        JNull \<Rightarrow> ''None''
      | JBool b \<Rightarrow> (if b then ''True'' else ''False'')
      | _ \<Rightarrow> [])"

definition plain_rt :: pyrt where
  "plain_rt =
     \<lparr>int_of_str = read_decimal,
      float_of_str = (\<lambda>s. map_option real_of_int (read_decimal s)),
      str_of = print_plain\<rparr>"

subsection \<open>Notions used in the statements\<close>

text \<open>The test of line 246: a patch is pending and it is not the empty dictionary.\<close>

definition has_patch :: "state \<Rightarrow> bool" where
  "has_patch st = (case pending st of None \<Rightarrow> False | Some p \<Rightarrow> p \<noteq> [])"

text \<open>The acknowledgement of line 280.\<close>

fun is_applied_ack :: "event \<Rightarrow> bool" where
  "is_applied_ack (Ack b md n) = (n = ''settings applied'')"
| "is_applied_ack (Reading m b r) = False"

text \<open>Lines 238-281, the part of the tick before the environment step, and whether it ends
  without an exception.\<close>

definition before_environment :: "pyrt \<Rightarrow> real \<Rightarrow> tick_input \<Rightarrow> step" where
  "before_environment L iv i =
     run_steps [fetch_settings L iv i, apply_patch L i, ack_settings_applied i]"

definition reaches_environment :: "pyrt \<Rightarrow> real \<Rightarrow> tick_input \<Rightarrow> state \<Rightarrow> bool" where
  "reaches_environment L iv i st = (snd (before_environment L iv i st) = None)"

text \<open>Two states that differ at most in the five settings variables.\<close>

definition settings_only :: "state \<Rightarrow> state \<Rightarrow> bool" where
  "settings_only st st' =
     (\<exists>a b c d e. st' = st\<lparr>mode := a, override_on := b, on_below := c, off_above := d,
                            send_interval := e\<rparr>)"


text \<open>The five settings variables have been assigned.\<close>

definition settings_bound :: "state \<Rightarrow> bool" where
  "settings_bound s =
     (mode s \<noteq> None \<and> override_on s \<noteq> None \<and> on_below s \<noteq> None
      \<and> off_above s \<noteq> None \<and> send_interval s \<noteq> None)"

text \<open>The moisture after each tick of a run of ticks, and whether every tick of the run
  reaches the environment step.\<close>

fun moistures :: "pyrt \<Rightarrow> real \<Rightarrow> tick_input list \<Rightarrow> state \<Rightarrow> int list" where
  "moistures L iv [] st = []"
| "moistures L iv (i # is) st = moisture (tick L iv i st) # moistures L iv is (tick L iv i st)"

fun all_reach :: "pyrt \<Rightarrow> real \<Rightarrow> tick_input list \<Rightarrow> state \<Rightarrow> bool" where
  "all_reach L iv [] st = True"
| "all_reach L iv (i # is) st =
     (reaches_environment L iv i st \<and> all_reach L iv is (tick L iv i st))"

text \<open>
  The pair last acknowledged after a list of requests, starting from \<open>l\<close>: the pair of
  the last \<open>cmd\<close> or policy acknowledgement (lines 274 and 300); the acknowledgement of
  line 280 does not count. And whether no policy acknowledgement of the list carries the
  pair last acknowledged before it.
\<close>

fun last_pair :: "(bool \<times> string) option \<Rightarrow> event list \<Rightarrow> (bool \<times> string) option" where
  "last_pair l [] = l"
| "last_pair l (Ack b md n # es) =
     last_pair (if n = ''settings applied'' then l else Some (b, md)) es"
| "last_pair l (Reading m b r # es) = last_pair l es"

fun no_repeated_pair :: "(bool \<times> string) option \<Rightarrow> event list \<Rightarrow> bool" where
  "no_repeated_pair l [] = True"
| "no_repeated_pair l (Ack b md n # es) =
     (if n = ''settings applied'' then no_repeated_pair l es
      else (n = ''sim'' \<longrightarrow> l \<noteq> Some (b, md)) \<and> no_repeated_pair (Some (b, md)) es)"
| "no_repeated_pair l (Reading m b r # es) = no_repeated_pair l es"

text \<open>Lines 238-276 end without an exception: the tick gets to line 279.\<close>

definition reaches_settings_ack :: "pyrt \<Rightarrow> real \<Rightarrow> tick_input \<Rightarrow> state \<Rightarrow> bool" where
  "reaches_settings_ack L iv i st =
     (snd (run_steps [fetch_settings L iv i, apply_patch L i] st) = None)"

text \<open>Lines 279-303, the part of the tick after the patch block, and the requests it adds
  from a state.\<close>

definition tail :: "tick_input \<Rightarrow> step" where
  "tail i = run_steps [ack_settings_applied i, environment i, control, ack_change i,
                        report_reading i]"

definition tail_events :: "tick_input \<Rightarrow> state \<Rightarrow> event list" where
  "tail_events i s = drop (length (out s)) (out (fst (tail i s)))"

text \<open>A tick input in which every request returns.\<close>

definition all_ok :: "fetch_result \<Rightarrow> int \<Rightarrow> int \<Rightarrow> tick_input" where
  "all_ok f d s =
     \<lparr>fetch = f, draw = d, sine = s, cmd_ack_ok = True, applied_ack_ok = True,
      change_ack_ok = True, reading_ok = True\<rparr>"

section \<open>Properties of the control logic and the environment model\<close>

lemma py_trunc_of_int: "py_trunc (real_of_int k) = k"
  by (simp add: py_trunc_def)

lemma clamp_bounds: "lo \<le> hi \<Longrightarrow> lo \<le> clamp x lo hi \<and> clamp x lo hi \<le> hi"
  by (simp add: clamp_def)

text \<open>
  C1. In auto mode (any mode other than \<open>manual\<close>), for a moisture in [0,100] and
  thresholds with onBelow < offAbove, the pump is turned on exactly when it was off and
  the moisture is below onBelow, turned off exactly when it was on and the moisture is
  above offAbove, and otherwise keeps its state; it is never turned on at a moisture of
  onBelow or more, and never left on above offAbove.
\<close>

theorem auto_policy_hysteresis:
  "0 \<le> m \<Longrightarrow> m \<le> 100 \<Longrightarrow> on_b < off_a \<Longrightarrow> md \<noteq> ''manual'' \<Longrightarrow>
   ((\<not> p \<and> control_logic md ov on_b off_a m p) = (\<not> p \<and> m < on_b))
   \<and> ((p \<and> \<not> control_logic md ov on_b off_a m p) = (p \<and> m > off_a))
   \<and> (\<not> (\<not> p \<and> m < on_b) \<and> \<not> (p \<and> m > off_a) \<longrightarrow> control_logic md ov on_b off_a m p = p)
   \<and> (on_b \<le> m \<and> \<not> p \<longrightarrow> \<not> control_logic md ov on_b off_a m p)
   \<and> (off_a < m \<longrightarrow> \<not> control_logic md ov on_b off_a m p)"
  by (auto simp: control_logic_def)

theorem auto_policy_hysteresis_witness:
  "control_logic ''auto'' False 35 45 34 False
   \<and> \<not> control_logic ''auto'' False 35 45 46 True
   \<and> control_logic ''auto'' False 35 45 40 True
   \<and> \<not> control_logic ''auto'' False 35 45 40 False"
  using auto_policy_hysteresis [of 34 35 45 "''auto''" False False]
    auto_policy_hysteresis [of 46 35 45 "''auto''" True False]
    auto_policy_hysteresis [of 40 35 45 "''auto''" True False]
    auto_policy_hysteresis [of 40 35 45 "''auto''" False False]
  by simp

text \<open>
  C7. In manual mode the decision is overridePumpOn, whatever the moisture, the
  thresholds and the prior pump state, and deciding again from the result gives the same
  result.
\<close>

theorem manual_policy_override:
  "control_logic ''manual'' ov on_b off_a m p = ov
   \<and> control_logic ''manual'' ov on_b off_a m (control_logic ''manual'' ov on_b off_a m p)
       = control_logic ''manual'' ov on_b off_a m p"
  by (simp add: control_logic_def)

text \<open>
  C8. One step of the environment model gives a moisture in [0,100], for every input
  moisture, every perturbation draw and every clock reading.
\<close>

theorem advance_in_range:
  "0 \<le> advance m d s \<and> advance m d s \<le> 100
   \<and> 0 \<le> advance m d (sine_term t) \<and> advance m d (sine_term t) \<le> 100"
  using clamp_bounds [of 0 100] by (simp add: advance_def)

section \<open>The merge of a command patch\<close>

text \<open>The defining equations, for evaluating a run on a concrete input.\<close>

lemmas eval_defs =
  tick_def tick_error_def tick_body_def emitted_def all_ok_def initial_def on_command_def
  on_settings_def fetch_settings_def get_settings_def json_get_def dict_get_def has_key_def
  py_or_def assign_mode_def assign_override_on_def assign_on_below_def assign_off_above_def
  assign_send_interval_def apply_patch_def take_patch_def merge_patch_def patch_mode_def
  patch_override_on_def patch_on_below_def patch_off_above_def patch_send_interval_def
  command_ack_def ack_settings_applied_def environment_def control_def ack_change_def
  report_reading_def advance_def clamp_def raw_of_def control_logic_def py_trunc_def
  lower_def lower_char_def plain_rt_def read_decimal_def digit_of_def print_plain_def

subsection \<open>Blocks\<close>

lemma run_steps_Cons_None: "f st = (s1, None) \<Longrightarrow> run_steps (f # fs) st = run_steps fs s1"
  by simp

lemma run_steps_Cons_Some: "f st = (s1, Some e) \<Longrightarrow> run_steps (f # fs) st = (s1, Some e)"
  by simp

lemma run_steps_complete_Cons:
  "run_steps (f # fs) st = (st', None) \<Longrightarrow> \<exists>s1. f st = (s1, None) \<and> run_steps fs s1 = (st', None)"
  by (auto split: prod.splits option.splits)

subsection \<open>Shapes of the patch steps\<close>

lemma patch_mode_shape: "patch_mode L p s = (s', e) \<Longrightarrow> \<exists>x. s' = s\<lparr>mode := x\<rparr>"
  by (auto simp: patch_mode_def Let_def split: if_splits option.splits intro: exI [of _ "mode s"])

lemma patch_override_on_shape: "patch_override_on p s = (s', e) \<Longrightarrow> \<exists>x. s' = s\<lparr>override_on := x\<rparr>"
  by (auto simp: patch_override_on_def split: if_splits intro: exI [of _ "override_on s"])

lemma patch_on_below_shape: "patch_on_below L p s = (s', e) \<Longrightarrow> \<exists>x. s' = s\<lparr>on_below := x\<rparr>"
  by (auto simp: patch_on_below_def Let_def split: if_splits option.splits sum.splits
      intro: exI [of _ "on_below s"])

lemma patch_off_above_shape: "patch_off_above L p s = (s', e) \<Longrightarrow> \<exists>x. s' = s\<lparr>off_above := x\<rparr>"
  by (auto simp: patch_off_above_def Let_def split: if_splits option.splits sum.splits
      intro: exI [of _ "off_above s"])

lemma patch_send_interval_shape:
  "patch_send_interval L p s = (s', e) \<Longrightarrow> e = None \<and> (\<exists>x. s' = s\<lparr>send_interval := x\<rparr>)"
  by (auto simp: patch_send_interval_def Let_def split: if_splits option.splits sum.splits
      intro: exI [of _ "send_interval s"])


subsection \<open>Values written by the patch steps\<close>

lemma patch_mode_value:
  "patch_mode L p s = (s', None) \<Longrightarrow>
   mode s' =
     (if has_key p ''pumpMode'' then
        (if truthy (dict_get p ''pumpMode'' JNull)
         then Some (lower (py_str L (dict_get p ''pumpMode'' JNull)))
         else map_option lower (mode s))
      else mode s)"
  by (auto simp: patch_mode_def Let_def split: if_splits option.splits)

lemma patch_override_on_value:
  "patch_override_on p s = (s', e) \<Longrightarrow>
   e = None \<and>
   override_on s' =
     (if has_key p ''overridePumpOn''
      then Some (truthy (dict_get p ''overridePumpOn'' JNull))
      else override_on s)"
  by (auto simp: patch_override_on_def split: if_splits)

lemma patch_on_below_value:
  "patch_on_below L p s = (s', None) \<Longrightarrow>
   (if has_key p ''pumpOnBelow'' \<and> truthy (dict_get p ''pumpOnBelow'' JNull)
    then \<exists>n. py_int L (dict_get p ''pumpOnBelow'' JNull) = Inr n \<and> on_below s' = Some n
    else on_below s' = on_below s)"
  by (auto simp: patch_on_below_def Let_def split: if_splits option.splits sum.splits)

lemma patch_off_above_value:
  "patch_off_above L p s = (s', None) \<Longrightarrow>
   (if has_key p ''pumpOffAbove'' \<and> truthy (dict_get p ''pumpOffAbove'' JNull)
    then \<exists>n. py_int L (dict_get p ''pumpOffAbove'' JNull) = Inr n \<and> off_above s' = Some n
    else off_above s' = off_above s)"
  by (auto simp: patch_off_above_def Let_def split: if_splits option.splits sum.splits)

lemma patch_send_interval_value:
  "patch_send_interval L p s = (s', e) \<Longrightarrow>
   send_interval s' =
     (if has_key p ''sendIntervalSec'' \<and> truthy (dict_get p ''sendIntervalSec'' JNull) then
        (case py_float L (dict_get p ''sendIntervalSec'' JNull) of
           Inl x \<Rightarrow> send_interval s
         | Inr r \<Rightarrow> Some r)
      else send_interval s)"
  by (auto simp: patch_send_interval_def Let_def split: if_splits option.splits sum.splits)

lemma merge_patch_complete:
  assumes "merge_patch L p st = (st', None)"
  obtains s1 s2 s3 s4 where
    "patch_mode L p st = (s1, None)" "patch_override_on p s1 = (s2, None)"
    "patch_on_below L p s2 = (s3, None)" "patch_off_above L p s3 = (s4, None)"
    "patch_send_interval L p s4 = (st', None)"
proof -
  from assms obtain s1 where 1: "patch_mode L p st = (s1, None)"
    and r1: "run_steps [patch_override_on p, patch_on_below L p, patch_off_above L p,
                        patch_send_interval L p] s1 = (st', None)"
    unfolding merge_patch_def by (blast dest: run_steps_complete_Cons)
  from r1 obtain s2 where 2: "patch_override_on p s1 = (s2, None)"
    and r2: "run_steps [patch_on_below L p, patch_off_above L p, patch_send_interval L p] s2
             = (st', None)"
    by (blast dest: run_steps_complete_Cons)
  from r2 obtain s3 where 3: "patch_on_below L p s2 = (s3, None)"
    and r3: "run_steps [patch_off_above L p, patch_send_interval L p] s3 = (st', None)"
    by (blast dest: run_steps_complete_Cons)
  from r3 obtain s4 where 4: "patch_off_above L p s3 = (s4, None)"
    and r4: "run_steps [patch_send_interval L p] s4 = (st', None)"
    by (blast dest: run_steps_complete_Cons)
  from r4 have 5: "patch_send_interval L p s4 = (st', None)"
    by (auto split: prod.splits option.splits)
  from 1 2 3 4 5 show thesis by (rule that)
qed

text \<open>A field whose key is absent from the patch is never written, also when the merge raises.\<close>

lemma patch_mode_absent: "\<not> has_key p ''pumpMode'' \<Longrightarrow> patch_mode L p s = (s, None)"
  by (simp add: patch_mode_def)

lemma patch_override_on_absent:
  "\<not> has_key p ''overridePumpOn'' \<Longrightarrow> patch_override_on p s = (s, None)"
  by (simp add: patch_override_on_def)

lemma patch_on_below_absent: "\<not> has_key p ''pumpOnBelow'' \<Longrightarrow> patch_on_below L p s = (s, None)"
  by (simp add: patch_on_below_def)

lemma patch_off_above_absent: "\<not> has_key p ''pumpOffAbove'' \<Longrightarrow> patch_off_above L p s = (s, None)"
  by (simp add: patch_off_above_def)

lemma patch_send_interval_absent:
  "\<not> has_key p ''sendIntervalSec'' \<Longrightarrow> patch_send_interval L p s = (s, None)"
  by (simp add: patch_send_interval_def)

text \<open>The merge writes the five settings variables and nothing else.\<close>

lemma merge_patch_shape:
  "\<exists>a b c d e. fst (merge_patch L p st) =
     st\<lparr>mode := a, override_on := b, on_below := c, off_above := d, send_interval := e\<rparr>"
proof -
  obtain s1 e1 where 1: "patch_mode L p st = (s1, e1)" by (cases "patch_mode L p st")
  obtain s2 e2 where 2: "patch_override_on p s1 = (s2, e2)" by (cases "patch_override_on p s1")
  obtain s3 e3 where 3: "patch_on_below L p s2 = (s3, e3)" by (cases "patch_on_below L p s2")
  obtain s4 e4 where 4: "patch_off_above L p s3 = (s4, e4)" by (cases "patch_off_above L p s3")
  obtain s5 e5 where 5: "patch_send_interval L p s4 = (s5, e5)"
    by (cases "patch_send_interval L p s4")
  from patch_mode_shape [OF 1] obtain a where a: "s1 = st\<lparr>mode := a\<rparr>" ..
  from patch_override_on_shape [OF 2] obtain b where b: "s2 = s1\<lparr>override_on := b\<rparr>" ..
  from patch_on_below_shape [OF 3] obtain c where c: "s3 = s2\<lparr>on_below := c\<rparr>" ..
  from patch_off_above_shape [OF 4] obtain d where d: "s4 = s3\<lparr>off_above := d\<rparr>" ..
  from patch_send_interval_shape [OF 5] obtain e where e: "s5 = s4\<lparr>send_interval := e\<rparr>"
    by blast
  have "fst (merge_patch L p st) \<in> {s1, s2, s3, s4, s5}"
    using 1 2 3 4 5 by (auto simp: merge_patch_def split: option.splits)
  moreover have "s1 = st\<lparr>mode := a, override_on := override_on st, on_below := on_below st,
      off_above := off_above st, send_interval := send_interval st\<rparr>"
    using a by simp
  moreover have "s2 = st\<lparr>mode := a, override_on := b, on_below := on_below st,
      off_above := off_above st, send_interval := send_interval st\<rparr>"
    using a b by simp
  moreover have "s3 = st\<lparr>mode := a, override_on := b, on_below := c,
      off_above := off_above st, send_interval := send_interval st\<rparr>"
    using a b c by simp
  moreover have "s4 = st\<lparr>mode := a, override_on := b, on_below := c,
      off_above := d, send_interval := send_interval st\<rparr>"
    using a b c d by simp
  moreover have "s5 = st\<lparr>mode := a, override_on := b, on_below := c,
      off_above := d, send_interval := e\<rparr>"
    using a b c d e by simp
  ultimately show ?thesis by (elim insertE emptyE) metis+
qed


lemma merge_patch_absent:
  "(\<not> has_key p ''pumpMode'' \<longrightarrow> mode (fst (merge_patch L p st)) = mode st)
   \<and> (\<not> has_key p ''overridePumpOn'' \<longrightarrow> override_on (fst (merge_patch L p st)) = override_on st)
   \<and> (\<not> has_key p ''pumpOnBelow'' \<longrightarrow> on_below (fst (merge_patch L p st)) = on_below st)
   \<and> (\<not> has_key p ''pumpOffAbove'' \<longrightarrow> off_above (fst (merge_patch L p st)) = off_above st)
   \<and> (\<not> has_key p ''sendIntervalSec'' \<longrightarrow>
        send_interval (fst (merge_patch L p st)) = send_interval st)"
proof -
  obtain s1 e1 where 1: "patch_mode L p st = (s1, e1)" by (cases "patch_mode L p st")
  obtain s2 e2 where 2: "patch_override_on p s1 = (s2, e2)" by (cases "patch_override_on p s1")
  obtain s3 e3 where 3: "patch_on_below L p s2 = (s3, e3)" by (cases "patch_on_below L p s2")
  obtain s4 e4 where 4: "patch_off_above L p s3 = (s4, e4)" by (cases "patch_off_above L p s3")
  obtain s5 e5 where 5: "patch_send_interval L p s4 = (s5, e5)"
    by (cases "patch_send_interval L p s4")
  from patch_mode_shape [OF 1] obtain a where a: "s1 = st\<lparr>mode := a\<rparr>" ..
  from patch_override_on_shape [OF 2] obtain b where b: "s2 = s1\<lparr>override_on := b\<rparr>" ..
  from patch_on_below_shape [OF 3] obtain c where c: "s3 = s2\<lparr>on_below := c\<rparr>" ..
  from patch_off_above_shape [OF 4] obtain d where d: "s4 = s3\<lparr>off_above := d\<rparr>" ..
  from patch_send_interval_shape [OF 5] obtain e where e: "s5 = s4\<lparr>send_interval := e\<rparr>"
    by blast
  have mem: "fst (merge_patch L p st) \<in> {s1, s2, s3, s4, s5}"
    using 1 2 3 4 5 by (auto simp: merge_patch_def split: option.splits)
  have m: "\<not> has_key p ''pumpMode'' \<Longrightarrow> s1 = st"
    using 1 by (simp add: patch_mode_absent)
  have ov: "\<not> has_key p ''overridePumpOn'' \<Longrightarrow> s2 = s1"
    using 2 by (simp add: patch_override_on_absent)
  have ob: "\<not> has_key p ''pumpOnBelow'' \<Longrightarrow> s3 = s2"
    using 3 by (simp add: patch_on_below_absent)
  have oa: "\<not> has_key p ''pumpOffAbove'' \<Longrightarrow> s4 = s3"
    using 4 by (simp add: patch_off_above_absent)
  have si: "\<not> has_key p ''sendIntervalSec'' \<Longrightarrow> s5 = s4"
    using 5 by (simp add: patch_send_interval_absent)
  have "\<not> has_key p ''pumpMode'' \<Longrightarrow> \<forall>s \<in> {s1, s2, s3, s4, s5}. mode s = mode st"
    using m b c d e by simp
  moreover have "\<not> has_key p ''overridePumpOn'' \<Longrightarrow>
      \<forall>s \<in> {s1, s2, s3, s4, s5}. override_on s = override_on st"
    using ov a c d e by simp
  moreover have "\<not> has_key p ''pumpOnBelow'' \<Longrightarrow>
      \<forall>s \<in> {s1, s2, s3, s4, s5}. on_below s = on_below st"
    using ob a b d e by simp
  moreover have "\<not> has_key p ''pumpOffAbove'' \<Longrightarrow>
      \<forall>s \<in> {s1, s2, s3, s4, s5}. off_above s = off_above st"
    using oa a b c e by simp
  moreover have "\<not> has_key p ''sendIntervalSec'' \<Longrightarrow>
      \<forall>s \<in> {s1, s2, s3, s4, s5}. send_interval s = send_interval st"
    using si a b c d by simp
  ultimately show ?thesis using mem by blast
qed

lemma merge_patch_present:
  assumes "merge_patch L p st = (st', None)"
  shows "mode st' =
           (if has_key p ''pumpMode'' then
              (if truthy (dict_get p ''pumpMode'' JNull)
               then Some (lower (py_str L (dict_get p ''pumpMode'' JNull)))
               else map_option lower (mode st))
            else mode st)"
    and "override_on st' =
           (if has_key p ''overridePumpOn''
            then Some (truthy (dict_get p ''overridePumpOn'' JNull))
            else override_on st)"
    and "if has_key p ''pumpOnBelow'' \<and> truthy (dict_get p ''pumpOnBelow'' JNull)
         then \<exists>n. py_int L (dict_get p ''pumpOnBelow'' JNull) = Inr n \<and> on_below st' = Some n
         else on_below st' = on_below st"
    and "if has_key p ''pumpOffAbove'' \<and> truthy (dict_get p ''pumpOffAbove'' JNull)
         then \<exists>n. py_int L (dict_get p ''pumpOffAbove'' JNull) = Inr n \<and> off_above st' = Some n
         else off_above st' = off_above st"
    and "send_interval st' =
           (if has_key p ''sendIntervalSec'' \<and> truthy (dict_get p ''sendIntervalSec'' JNull) then
              (case py_float L (dict_get p ''sendIntervalSec'' JNull) of
                 Inl x \<Rightarrow> send_interval st
               | Inr r \<Rightarrow> Some r)
            else send_interval st)"
proof -
  from assms obtain s1 s2 s3 s4 where
    1: "patch_mode L p st = (s1, None)" and 2: "patch_override_on p s1 = (s2, None)" and
    3: "patch_on_below L p s2 = (s3, None)" and 4: "patch_off_above L p s3 = (s4, None)" and
    5: "patch_send_interval L p s4 = (st', None)"
    by (rule merge_patch_complete)
  from patch_mode_shape [OF 1] obtain a where a: "s1 = st\<lparr>mode := a\<rparr>" ..
  from patch_override_on_shape [OF 2] obtain b where b: "s2 = s1\<lparr>override_on := b\<rparr>" ..
  from patch_on_below_shape [OF 3] obtain c where c: "s3 = s2\<lparr>on_below := c\<rparr>" ..
  from patch_off_above_shape [OF 4] obtain d where d: "s4 = s3\<lparr>off_above := d\<rparr>" ..
  from patch_send_interval_shape [OF 5] obtain e where e: "st' = s4\<lparr>send_interval := e\<rparr>"
    by blast
  have "mode st' = mode s1" using b c d e by simp
  with patch_mode_value [OF 1] show "mode st' =
           (if has_key p ''pumpMode'' then
              (if truthy (dict_get p ''pumpMode'' JNull)
               then Some (lower (py_str L (dict_get p ''pumpMode'' JNull)))
               else map_option lower (mode st))
            else mode st)" by simp
  have "override_on st' = override_on s2" "override_on s1 = override_on st"
    using a c d e by simp_all
  with patch_override_on_value [OF 2] show "override_on st' =
           (if has_key p ''overridePumpOn''
            then Some (truthy (dict_get p ''overridePumpOn'' JNull))
            else override_on st)" by simp
  have "on_below st' = on_below s3" "on_below s2 = on_below st"
    using a b d e by simp_all
  with patch_on_below_value [OF 3]
  show "if has_key p ''pumpOnBelow'' \<and> truthy (dict_get p ''pumpOnBelow'' JNull)
         then \<exists>n. py_int L (dict_get p ''pumpOnBelow'' JNull) = Inr n \<and> on_below st' = Some n
         else on_below st' = on_below st" by simp
  have "off_above st' = off_above s4" "off_above s3 = off_above st"
    using a b c e by simp_all
  with patch_off_above_value [OF 4]
  show "if has_key p ''pumpOffAbove'' \<and> truthy (dict_get p ''pumpOffAbove'' JNull)
         then \<exists>n. py_int L (dict_get p ''pumpOffAbove'' JNull) = Inr n \<and> off_above st' = Some n
         else off_above st' = off_above st" by simp
  have "send_interval s4 = send_interval st"
    using a b c d by simp
  with patch_send_interval_value [OF 5]
  show "send_interval st' =
           (if has_key p ''sendIntervalSec'' \<and> truthy (dict_get p ''sendIntervalSec'' JNull) then
              (case py_float L (dict_get p ''sendIntervalSec'' JNull) of
                 Inl x \<Rightarrow> send_interval st
               | Inr r \<Rightarrow> Some r)
            else send_interval st)" by (simp split: sum.splits)
qed

lemma lower_char_idem: "lower_char (lower_char c) = lower_char c"
  by (auto simp: lower_char_def split: if_splits)

lemma lower_idem: "lower (lower s) = lower s"
  by (simp add: lower_def lower_char_idem)

text \<open>
  C3, as amended. Merging a patch writes the five settings variables and nothing else,
  and never writes a field whose key is absent from the patch. When the merge completes,
  a field whose key is present with a truthy value takes that value after coercion
  (\<^verbatim>\<open>str(v).lower()\<close>, \<^verbatim>\<open>int(v)\<close>, \<^verbatim>\<open>float(v)\<close>), and overridePumpOn takes
  \<^verbatim>\<open>bool(v)\<close> of whatever value is present. A present pumpMode or sendIntervalSec with a
  falsy value, a present threshold with the value null, and a sendIntervalSec that does
  not convert, leave the field as it was (the mode lower-cased again, which changes
  nothing after line 239).
\<close>

theorem merge_patch_fields:
  "(\<not> has_key p ''pumpMode'' \<longrightarrow> mode (fst (merge_patch L p st)) = mode st)
   \<and> (\<not> has_key p ''overridePumpOn'' \<longrightarrow> override_on (fst (merge_patch L p st)) = override_on st)
   \<and> (\<not> has_key p ''pumpOnBelow'' \<longrightarrow> on_below (fst (merge_patch L p st)) = on_below st)
   \<and> (\<not> has_key p ''pumpOffAbove'' \<longrightarrow> off_above (fst (merge_patch L p st)) = off_above st)
   \<and> (\<not> has_key p ''sendIntervalSec'' \<longrightarrow>
        send_interval (fst (merge_patch L p st)) = send_interval st)
   \<and> (\<exists>a b c d e. fst (merge_patch L p st) =
        st\<lparr>mode := a, override_on := b, on_below := c, off_above := d, send_interval := e\<rparr>)
   \<and> (snd (merge_patch L p st) = None \<longrightarrow>
        (has_key p ''pumpMode'' \<longrightarrow>
           mode (fst (merge_patch L p st)) =
             (if truthy (dict_get p ''pumpMode'' JNull)
              then Some (lower (py_str L (dict_get p ''pumpMode'' JNull)))
              else map_option lower (mode st)))
        \<and> (has_key p ''overridePumpOn'' \<longrightarrow>
             override_on (fst (merge_patch L p st)) =
               Some (truthy (dict_get p ''overridePumpOn'' JNull)))
        \<and> (has_key p ''pumpOnBelow'' \<and> truthy (dict_get p ''pumpOnBelow'' JNull) \<longrightarrow>
             (\<exists>n. py_int L (dict_get p ''pumpOnBelow'' JNull) = Inr n
                  \<and> on_below (fst (merge_patch L p st)) = Some n))
        \<and> (has_key p ''pumpOnBelow'' \<and> dict_get p ''pumpOnBelow'' JNull = JNull \<longrightarrow>
             on_below (fst (merge_patch L p st)) = on_below st)
        \<and> (has_key p ''pumpOffAbove'' \<and> truthy (dict_get p ''pumpOffAbove'' JNull) \<longrightarrow>
             (\<exists>n. py_int L (dict_get p ''pumpOffAbove'' JNull) = Inr n
                  \<and> off_above (fst (merge_patch L p st)) = Some n))
        \<and> (has_key p ''pumpOffAbove'' \<and> dict_get p ''pumpOffAbove'' JNull = JNull \<longrightarrow>
             off_above (fst (merge_patch L p st)) = off_above st)
        \<and> (has_key p ''sendIntervalSec'' \<longrightarrow>
             send_interval (fst (merge_patch L p st)) =
               (if truthy (dict_get p ''sendIntervalSec'' JNull) then
                  (case py_float L (dict_get p ''sendIntervalSec'' JNull) of
                     Inl x \<Rightarrow> send_interval st
                   | Inr r \<Rightarrow> Some r)
                else send_interval st)))"
  (is "?m \<and> ?ov \<and> ?ob \<and> ?oa \<and> ?si \<and> ?shape \<and> (?completes \<longrightarrow> ?present)")
proof -
  have "?completes \<longrightarrow> ?present"
  proof
    assume ?completes
    then have c: "merge_patch L p st = (fst (merge_patch L p st), None)"
      by (metis prod.collapse)
    note pr = merge_patch_present [OF c]
    show ?present
      using pr(1) pr(2) pr(3) pr(4) pr(5) by (auto split: if_splits)
  qed
  then show ?thesis
    using merge_patch_absent [of p L st] merge_patch_shape [of L p st] by blast
qed

theorem merge_patch_fields_witness:
  "snd (merge_patch plain_rt
          [(''pumpMode'', JStr ''AUTO''), (''overridePumpOn'', JInt 1),
           (''pumpOnBelow'', JStr ''30''), (''sendIntervalSec'', JStr ''x'')]
          (fst (fetch_settings plain_rt 60
                 (all_ok (FetchBody (JObj [(''pumpMode'', JStr ''manual'')])) 0 0)
                 (initial 40)))) = None
   \<and> mode (fst (merge_patch plain_rt
          [(''pumpMode'', JStr ''AUTO''), (''overridePumpOn'', JInt 1),
           (''pumpOnBelow'', JStr ''30''), (''sendIntervalSec'', JStr ''x'')]
          (fst (fetch_settings plain_rt 60
                 (all_ok (FetchBody (JObj [(''pumpMode'', JStr ''manual'')])) 0 0)
                 (initial 40))))) = Some ''auto''
   \<and> override_on (fst (merge_patch plain_rt
          [(''pumpMode'', JStr ''AUTO''), (''overridePumpOn'', JInt 1),
           (''pumpOnBelow'', JStr ''30''), (''sendIntervalSec'', JStr ''x'')]
          (fst (fetch_settings plain_rt 60
                 (all_ok (FetchBody (JObj [(''pumpMode'', JStr ''manual'')])) 0 0)
                 (initial 40))))) = Some True
   \<and> on_below (fst (merge_patch plain_rt
          [(''pumpMode'', JStr ''AUTO''), (''overridePumpOn'', JInt 1),
           (''pumpOnBelow'', JStr ''30''), (''sendIntervalSec'', JStr ''x'')]
          (fst (fetch_settings plain_rt 60
                 (all_ok (FetchBody (JObj [(''pumpMode'', JStr ''manual'')])) 0 0)
                 (initial 40))))) = Some 30
   \<and> off_above (fst (merge_patch plain_rt
          [(''pumpMode'', JStr ''AUTO''), (''overridePumpOn'', JInt 1),
           (''pumpOnBelow'', JStr ''30''), (''sendIntervalSec'', JStr ''x'')]
          (fst (fetch_settings plain_rt 60
                 (all_ok (FetchBody (JObj [(''pumpMode'', JStr ''manual'')])) 0 0)
                 (initial 40))))) = Some 45
   \<and> send_interval (fst (merge_patch plain_rt
          [(''pumpMode'', JStr ''AUTO''), (''overridePumpOn'', JInt 1),
           (''pumpOnBelow'', JStr ''30''), (''sendIntervalSec'', JStr ''x'')]
          (fst (fetch_settings plain_rt 60
                 (all_ok (FetchBody (JObj [(''pumpMode'', JStr ''manual'')])) 0 0)
                 (initial 40))))) = Some 60"
  using merge_patch_fields
    [where L = plain_rt
       and p = "[(''pumpMode'', JStr ''AUTO''), (''overridePumpOn'', JInt 1),
                 (''pumpOnBelow'', JStr ''30''), (''sendIntervalSec'', JStr ''x'')]"
       and st = "fst (fetch_settings plain_rt 60
                 (all_ok (FetchBody (JObj [(''pumpMode'', JStr ''manual'')])) 0 0)
                 (initial 40))"]
  by (simp add: eval_defs)

text \<open>
  C3 as stated fails: the patch \<^verbatim>\<open>{"pumpMode": ""}\<close> has the key pumpMode, the merge
  completes, and the mode stays \<^verbatim>\<open>manual\<close> instead of taking the patch's value
  \<^verbatim>\<open>str("").lower()\<close>.
\<close>

theorem merge_patch_falsy_counterexample:
  "has_key [(''pumpMode'', JStr [])] ''pumpMode''
   \<and> snd (merge_patch plain_rt [(''pumpMode'', JStr [])]
          (fst (fetch_settings plain_rt 60
                 (all_ok (FetchBody (JObj [(''pumpMode'', JStr ''manual'')])) 0 0)
                 (initial 40)))) = None
   \<and> mode (fst (merge_patch plain_rt [(''pumpMode'', JStr [])]
          (fst (fetch_settings plain_rt 60
                 (all_ok (FetchBody (JObj [(''pumpMode'', JStr ''manual'')])) 0 0)
                 (initial 40))))) = Some ''manual''
   \<and> mode (fst (merge_patch plain_rt [(''pumpMode'', JStr [])]
          (fst (fetch_settings plain_rt 60
                 (all_ok (FetchBody (JObj [(''pumpMode'', JStr ''manual'')])) 0 0)
                 (initial 40)))))
       \<noteq> Some (lower (py_str plain_rt (dict_get [(''pumpMode'', JStr [])] ''pumpMode'' JNull)))"
  by (simp add: eval_defs)

text \<open>
  C5. The conversion of sendIntervalSec is the only one that is guarded: it never raises.
\<close>

lemma patch_send_interval_never_raises: "snd (patch_send_interval L p s) = None"
  using patch_send_interval_shape [of L p s] by (cases "patch_send_interval L p s") simp

text \<open>
  C5 fails on the code at the patch \<^verbatim>\<open>{"pumpOnBelow": "abc", "pumpOffAbove": 50}\<close>:
  \<^verbatim>\<open>int("abc")\<close> raises at line 254, the handler of line 310 ends the tick, pumpOffAbove
  keeps the fetched 45, no acknowledgement and no reading are sent, and the patch is
  gone.
\<close>

theorem patch_threshold_conversion_ends_tick:
  "tick_error plain_rt 60 (all_ok (FetchBody (JObj [])) 0 0)
     (on_command [(''pumpOnBelow'', JStr ''abc''), (''pumpOffAbove'', JInt 50)] (initial 40))
     = Some ValueError
   \<and> off_above (tick plain_rt 60 (all_ok (FetchBody (JObj [])) 0 0)
       (on_command [(''pumpOnBelow'', JStr ''abc''), (''pumpOffAbove'', JInt 50)] (initial 40)))
     = Some 45
   \<and> emitted plain_rt 60 (all_ok (FetchBody (JObj [])) 0 0)
       (on_command [(''pumpOnBelow'', JStr ''abc''), (''pumpOffAbove'', JInt 50)] (initial 40))
     = []
   \<and> pending (tick plain_rt 60 (all_ok (FetchBody (JObj [])) 0 0)
       (on_command [(''pumpOnBelow'', JStr ''abc''), (''pumpOffAbove'', JInt 50)] (initial 40)))
     = None"
  by (simp add: eval_defs)

section \<open>A failed settings fetch\<close>

text \<open>
  C6, as amended. When the settings request raises, the tick ends at once and no variable
  changes, so the five settings keep their values. When the request returns a status
  that is not OK, on any tick, the five settings are set to the defaults
  (\<^verbatim>\<open>auto\<close>, \<^verbatim>\<open>False\<close>, 35, 45 and the configured interval) and the tick goes on with
  them.
\<close>

theorem failed_fetch_settings:
  "(fetch i = FetchRaises \<longrightarrow>
      tick L iv i st = st \<and> tick_error L iv i st = Some RequestException)
   \<and> (fetch i = FetchNotOk \<longrightarrow>
        fetch_settings L iv i st =
          (st\<lparr>mode := Some ''auto'', override_on := Some False, on_below := Some 35,
              off_above := Some 45, send_interval := Some iv\<rparr>, None))"
  by (simp add: tick_def tick_error_def tick_body_def fetch_settings_def get_settings_def
      json_get_def dict_get_def py_or_def assign_mode_def assign_override_on_def
      assign_on_below_def assign_off_above_def assign_send_interval_def lower_def
      lower_char_def)

theorem failed_fetch_settings_witness:
  "fetch (all_ok FetchRaises 0 0) = FetchRaises
   \<and> tick plain_rt 60 (all_ok FetchRaises 0 0) (initial 40) = initial 40
   \<and> fetch (all_ok FetchNotOk 0 0) = FetchNotOk
   \<and> mode (fst (fetch_settings plain_rt 60 (all_ok FetchNotOk 0 0) (initial 40))) = Some ''auto''"
  using failed_fetch_settings [of "all_ok FetchRaises 0 0" plain_rt 60 "initial 40"]
    failed_fetch_settings [of "all_ok FetchNotOk 0 0" plain_rt 60 "initial 40"]
  by (simp add: all_ok_def)

text \<open>
  C6 as stated fails: after a first tick that fetched manual mode with the override on,
  a second tick whose fetch returns a status that is not OK runs in auto mode with the
  override off.
\<close>

theorem failed_fetch_resets_counterexample:
  "mode (tick plain_rt 60
          (all_ok (FetchBody (JObj [(''pumpMode'', JStr ''manual''),
                                    (''overridePumpOn'', JBool True)])) 0 0)
          (initial 40)) = Some ''manual''
   \<and> override_on (tick plain_rt 60
          (all_ok (FetchBody (JObj [(''pumpMode'', JStr ''manual''),
                                    (''overridePumpOn'', JBool True)])) 0 0)
          (initial 40)) = Some True
   \<and> fetch (all_ok FetchNotOk 0 0) = FetchNotOk
   \<and> mode (tick plain_rt 60 (all_ok FetchNotOk 0 0)
        (tick plain_rt 60
          (all_ok (FetchBody (JObj [(''pumpMode'', JStr ''manual''),
                                    (''overridePumpOn'', JBool True)])) 0 0)
          (initial 40))) = Some ''auto''
   \<and> override_on (tick plain_rt 60 (all_ok FetchNotOk 0 0)
        (tick plain_rt 60
          (all_ok (FetchBody (JObj [(''pumpMode'', JStr ''manual''),
                                    (''overridePumpOn'', JBool True)])) 0 0)
          (initial 40))) = Some False"
  by (simp add: eval_defs)

section \<open>The raw sensor value\<close>

lemma raw_of_linear: "raw_of m = 1400 + 18 * (100 - m)"
proof -
  have "real_of_int ((100 - m) * (3200 - 1400)) / 100 = real_of_int (18 * (100 - m))"
    by simp
  then show ?thesis
    unfolding raw_of_def by (simp only: py_trunc_of_int)
qed

lemma control_ignores_raw:
  "control (st\<lparr>raw := r\<rparr>) = (fst (control st)\<lparr>raw := r\<rparr>, snd (control st))"
  by (simp add: control_def split: option.splits)

lemma ack_change_ignores_raw:
  "ack_change i (st\<lparr>raw := r\<rparr>) = (fst (ack_change i st)\<lparr>raw := r\<rparr>, snd (ack_change i st))"
  by (simp add: ack_change_def split: option.splits)

lemma command_ack_ignores_raw:
  "command_ack i (st\<lparr>raw := r\<rparr>) = (fst (command_ack i st)\<lparr>raw := r\<rparr>, snd (command_ack i st))"
  by (simp add: command_ack_def Let_def split: option.splits)

text \<open>
  C10. For a moisture in [0,100] the raw value is 1400 + floor((100 - m) * 1800 / 100),
  lies in [1400, 3200] and does not grow with the moisture. The environment step stores
  the raw value of the new moisture; the control step and the two acknowledgements that
  carry the decision do not depend on it: run from a state with another raw value, they
  give the same result with that raw value carried along.
\<close>

theorem raw_sensor_mapping:
  "0 \<le> m \<Longrightarrow> m \<le> 100 \<Longrightarrow>
   raw_of m = 1400 + \<lfloor>real_of_int ((100 - m) * (3200 - 1400)) / 100\<rfloor>
   \<and> 1400 \<le> raw_of m \<and> raw_of m \<le> 3200
   \<and> (m \<le> m' \<longrightarrow> raw_of m' \<le> raw_of m)
   \<and> raw (fst (environment i st)) = Some (raw_of (moisture (fst (environment i st))))
   \<and> control (st\<lparr>raw := r\<rparr>) = (fst (control st)\<lparr>raw := r\<rparr>, snd (control st))
   \<and> ack_change i (st\<lparr>raw := r\<rparr>) = (fst (ack_change i st)\<lparr>raw := r\<rparr>, snd (ack_change i st))
   \<and> command_ack i (st\<lparr>raw := r\<rparr>)
       = (fst (command_ack i st)\<lparr>raw := r\<rparr>, snd (command_ack i st))"
proof -
  assume "0 \<le> m" and "m \<le> 100"
  then have "raw_of m = 1400 + \<lfloor>real_of_int ((100 - m) * (3200 - 1400)) / 100\<rfloor>"
    by (simp add: raw_of_def py_trunc_def)
  moreover have "1400 \<le> raw_of m \<and> raw_of m \<le> 3200"
    using \<open>0 \<le> m\<close> \<open>m \<le> 100\<close> by (simp add: raw_of_linear)
  moreover have "m \<le> m' \<longrightarrow> raw_of m' \<le> raw_of m"
    by (simp add: raw_of_linear)
  moreover have "raw (fst (environment i st)) = Some (raw_of (moisture (fst (environment i st))))"
    by (simp add: environment_def Let_def)
  ultimately show ?thesis
    using control_ignores_raw ack_change_ignores_raw command_ack_ignores_raw by blast
qed

theorem raw_sensor_mapping_witness:
  "(0::int) \<le> 37 \<and> (37::int) \<le> 100 \<and> raw_of 37 = 2534 \<and> (37::int) \<le> 50
   \<and> raw_of 50 \<le> raw_of 37"
  using raw_sensor_mapping [of 37 50 "all_ok FetchNotOk 0 0" "initial 40" None]
  by simp

section \<open>Frames\<close>

lemma run_steps_Cons_if:
  "run_steps (f # fs) st = (if snd (f st) = None then run_steps fs (fst (f st)) else f st)"
  by (cases "f st") (auto split: option.splits)

lemma settings_only_refl: "settings_only st st"
  unfolding settings_only_def
  by (rule exI [of _ "mode st"], rule exI [of _ "override_on st"], rule exI [of _ "on_below st"],
      rule exI [of _ "off_above st"], rule exI [of _ "send_interval st"]) simp

lemma settings_only_trans:
  "settings_only s1 s2 \<Longrightarrow> settings_only s2 s3 \<Longrightarrow> settings_only s1 s3"
  unfolding settings_only_def by (elim exE) (simp, blast)

lemma settings_only_frame:
  "settings_only st st' \<Longrightarrow>
   out st' = out st \<and> pending st' = pending st \<and> moisture st' = moisture st
   \<and> pump_on st' = pump_on st \<and> last_ack_state st' = last_ack_state st
   \<and> settings_applied_acked st' = settings_applied_acked st \<and> raw st' = raw st
   \<and> sse_nudge st' = sse_nudge st"
  unfolding settings_only_def by auto

lemma run_steps_settings_only:
  "(\<And>f s. f \<in> set fs \<Longrightarrow> settings_only s (fst (f s))) \<Longrightarrow>
   settings_only st (fst (run_steps fs st))"
proof (induction fs arbitrary: st)
  case Nil
  then show ?case by (simp add: settings_only_refl)
next
  case (Cons f fs)
  have f: "settings_only st (fst (f st))" using Cons.prems by simp
  show ?case
  proof (cases "snd (f st) = None")
    case True
    have "settings_only (fst (f st)) (fst (run_steps fs (fst (f st))))"
      using Cons.IH Cons.prems by simp
    with f True show ?thesis
      by (simp add: run_steps_Cons_if settings_only_trans del: run_steps.simps)
  next
    case False
    with f show ?thesis by (auto simp add: run_steps_Cons_if simp del: run_steps.simps)
  qed
qed

lemma settings_only_mode: "settings_only s (s\<lparr>mode := x\<rparr>)"
  unfolding settings_only_def
  by (rule exI [of _ x], rule exI [of _ "override_on s"], rule exI [of _ "on_below s"],
      rule exI [of _ "off_above s"], rule exI [of _ "send_interval s"]) simp

lemma settings_only_override_on: "settings_only s (s\<lparr>override_on := x\<rparr>)"
  unfolding settings_only_def
  by (rule exI [of _ "mode s"], rule exI [of _ x], rule exI [of _ "on_below s"],
      rule exI [of _ "off_above s"], rule exI [of _ "send_interval s"]) simp

lemma settings_only_on_below: "settings_only s (s\<lparr>on_below := x\<rparr>)"
  unfolding settings_only_def
  by (rule exI [of _ "mode s"], rule exI [of _ "override_on s"], rule exI [of _ x],
      rule exI [of _ "off_above s"], rule exI [of _ "send_interval s"]) simp

lemma settings_only_off_above: "settings_only s (s\<lparr>off_above := x\<rparr>)"
  unfolding settings_only_def
  by (rule exI [of _ "mode s"], rule exI [of _ "override_on s"], rule exI [of _ "on_below s"],
      rule exI [of _ x], rule exI [of _ "send_interval s"]) simp

lemma settings_only_send_interval: "settings_only s (s\<lparr>send_interval := x\<rparr>)"
  unfolding settings_only_def
  by (rule exI [of _ "mode s"], rule exI [of _ "override_on s"], rule exI [of _ "on_below s"],
      rule exI [of _ "off_above s"], rule exI [of _ x]) simp

lemmas settings_only_intros =
  settings_only_refl settings_only_mode settings_only_override_on settings_only_on_below
  settings_only_off_above settings_only_send_interval

lemma assign_steps_settings_only:
  "settings_only s (fst (assign_mode j s))"
  "settings_only s (fst (assign_override_on j s))"
  "settings_only s (fst (assign_on_below L j s))"
  "settings_only s (fst (assign_off_above L j s))"
  "settings_only s (fst (assign_send_interval L iv j s))"
  by (auto simp: assign_mode_def assign_override_on_def assign_on_below_def
      assign_off_above_def assign_send_interval_def settings_only_intros
      split: sum.splits json.splits)

lemma fetch_settings_only: "settings_only st (fst (fetch_settings L iv i st))"
proof (cases "get_settings (fetch i)")
  case (Inl e)
  then show ?thesis by (simp add: fetch_settings_def settings_only_refl)
next
  case (Inr j)
  have "settings_only st (fst (run_steps [assign_mode j, assign_override_on j,
      assign_on_below L j, assign_off_above L j, assign_send_interval L iv j] st))"
    by (rule run_steps_settings_only) (auto simp: assign_steps_settings_only)
  with Inr show ?thesis by (simp add: fetch_settings_def)
qed

lemma merge_patch_settings_only: "settings_only st (fst (merge_patch L p st))"
  using merge_patch_shape [of L p st] by (simp add: settings_only_def)


section \<open>The patch block and the tail of the tick\<close>

lemma run_steps_three:
  "run_steps [f, g, h] st =
     (if snd (f st) = None
      then (if snd (g (fst (f st))) = None then h (fst (g (fst (f st)))) else g (fst (f st)))
      else f st)"
  by (auto split: prod.splits option.splits)

lemma apply_patch_no_patch: "\<not> has_patch s \<Longrightarrow> apply_patch L i s = (s, None)"
  by (simp add: apply_patch_def has_patch_def split: option.splits)

lemma command_ack_cases:
  "(snd (command_ack i m) \<noteq> None \<and> fst (command_ack i m) = m)
   \<or> (snd (command_ack i m) = None
      \<and> (\<exists>d md. mode m = Some md
           \<and> fst (command_ack i m) =
               m\<lparr>out := out m @ [Ack d md ''cmd''], last_ack_state := Some (d, md),
                  pump_on := d\<rparr>))"
  by (auto simp: command_ack_def Let_def split: option.splits)

lemma apply_patch_spec:
  "moisture (fst (apply_patch L i s)) = moisture s
   \<and> settings_applied_acked (fst (apply_patch L i s)) = settings_applied_acked s
   \<and> raw (fst (apply_patch L i s)) = raw s
   \<and> pending (fst (apply_patch L i s)) = (if has_patch s then None else pending s)
   \<and> ((out (fst (apply_patch L i s)) = out s
        \<and> last_ack_state (fst (apply_patch L i s)) = last_ack_state s
        \<and> pump_on (fst (apply_patch L i s)) = pump_on s)
      \<or> (has_patch s \<and> snd (apply_patch L i s) = None
         \<and> (\<exists>d md. out (fst (apply_patch L i s)) = out s @ [Ack d md ''cmd'']
               \<and> last_ack_state (fst (apply_patch L i s)) = Some (d, md)
               \<and> pump_on (fst (apply_patch L i s)) = d
               \<and> mode (fst (apply_patch L i s)) = Some md)))"
proof (cases "has_patch s")
  case False
  then show ?thesis by (simp add: apply_patch_no_patch)
next
  case True
  then obtain p where p: "pending s = Some p" "p \<noteq> []"
    by (auto simp: has_patch_def split: option.splits)
  define t where "t = s\<lparr>pending := None\<rparr>"
  define m where "m = fst (merge_patch L p t)"
  have fr: "out m = out t \<and> pending m = pending t \<and> moisture m = moisture t
     \<and> pump_on m = pump_on t \<and> last_ack_state m = last_ack_state t
     \<and> settings_applied_acked m = settings_applied_acked t \<and> raw m = raw t
     \<and> sse_nudge m = sse_nudge t"
    unfolding m_def by (rule settings_only_frame) (rule merge_patch_settings_only)
  have ap: "apply_patch L i s =
      (if snd (merge_patch L p t) = None then command_ack i m else merge_patch L p t)"
    using p by (simp add: apply_patch_def take_patch_def run_steps_three t_def m_def
        del: run_steps.simps)
  show ?thesis
  proof (cases "snd (merge_patch L p t) = None")
    case False
    with ap have "fst (apply_patch L i s) = m" "snd (apply_patch L i s) \<noteq> None"
      by (simp_all add: m_def)
    with fr True show ?thesis by (simp add: t_def)
  next
    case mt: True
    with ap have eq: "apply_patch L i s = command_ack i m" by simp
    from command_ack_cases [of i m] show ?thesis
    proof
      assume "snd (command_ack i m) \<noteq> None \<and> fst (command_ack i m) = m"
      with eq fr True show ?thesis by (simp add: t_def)
    next
      assume "snd (command_ack i m) = None
        \<and> (\<exists>d md. mode m = Some md
           \<and> fst (command_ack i m) =
               m\<lparr>out := out m @ [Ack d md ''cmd''], last_ack_state := Some (d, md),
                  pump_on := d\<rparr>)"
      then obtain d md where "snd (command_ack i m) = None" "mode m = Some md"
        "fst (command_ack i m) =
               m\<lparr>out := out m @ [Ack d md ''cmd''], last_ack_state := Some (d, md),
                  pump_on := d\<rparr>" by blast
      with eq fr True show ?thesis by (simp add: t_def)
    qed
  qed
qed

text \<open>Lines 279-303 from any state.\<close>

lemma tail_spec:
  "\<exists>es. out (fst (run_steps [ack_settings_applied i, environment i, control, ack_change i,
                             report_reading i] s)) = out s @ es
     \<and> (\<forall>b md n. Ack b md n \<in> set es \<longrightarrow>
          (n = ''settings applied'' \<and> \<not> settings_applied_acked s)
          \<or> (n = ''sim''
             \<and> pump_on (fst (run_steps [ack_settings_applied i, environment i, control,
                                        ack_change i, report_reading i] s)) = b
             \<and> mode (fst (run_steps [ack_settings_applied i, environment i, control,
                                     ack_change i, report_reading i] s)) = Some md
             \<and> last_ack_state s \<noteq> Some (b, md)))
     \<and> length (filter is_applied_ack es) =
         (if settings_applied_acked (fst (run_steps [ack_settings_applied i, environment i,
               control, ack_change i, report_reading i] s)) \<and> \<not> settings_applied_acked s
          then 1 else 0)
     \<and> (settings_applied_acked s \<longrightarrow>
          settings_applied_acked (fst (run_steps [ack_settings_applied i, environment i,
               control, ack_change i, report_reading i] s)))
     \<and> (snd (ack_settings_applied i s) = None \<and> \<not> settings_applied_acked s \<longrightarrow>
          (\<exists>b md. Ack b md ''settings applied'' \<in> set es))"
  by (auto simp: ack_settings_applied_def environment_def control_def ack_change_def
      report_reading_def Let_def split: option.splits)


lemma tail_moisture:
  "moisture (fst (run_steps [ack_settings_applied i, environment i, control, ack_change i,
                            report_reading i] s)) =
     (if snd (ack_settings_applied i s) = None
      then advance (moisture s) (draw i) (sine i) else moisture s)
   \<and> pending (fst (run_steps [ack_settings_applied i, environment i, control, ack_change i,
                            report_reading i] s)) = pending s"
  by (auto simp: ack_settings_applied_def environment_def control_def ack_change_def
      report_reading_def Let_def split: option.splits)

section \<open>One tick\<close>

lemma tick_body_unfold:
  "tick_body L iv i st =
     (if snd (fetch_settings L iv i st) = None then
        (if snd (apply_patch L i (fst (fetch_settings L iv i st))) = None
         then run_steps [ack_settings_applied i, environment i, control, ack_change i,
                         report_reading i]
                (fst (apply_patch L i (fst (fetch_settings L iv i st))))
         else apply_patch L i (fst (fetch_settings L iv i st)))
      else fetch_settings L iv i st)"
  unfolding tick_body_def
  by (subst run_steps_Cons_if, subst run_steps_Cons_if) simp

lemma reaches_environment_iff:
  "reaches_environment L iv i st =
     (snd (fetch_settings L iv i st) = None
      \<and> snd (apply_patch L i (fst (fetch_settings L iv i st))) = None
      \<and> snd (ack_settings_applied i
               (fst (apply_patch L i (fst (fetch_settings L iv i st))))) = None)"
  by (auto simp add: reaches_environment_def before_environment_def run_steps_three
      simp del: run_steps.simps)

lemma has_patch_fetch: "has_patch (fst (fetch_settings L iv i st)) = has_patch st"
  using settings_only_frame [OF fetch_settings_only [of st L iv i]]
  by (simp add: has_patch_def)

lemma tick_moisture:
  "moisture (tick L iv i st) =
     (if reaches_environment L iv i st
      then advance (moisture st) (draw i) (sine i) else moisture st)"
proof -
  note f = settings_only_frame [OF fetch_settings_only [of st L iv i]]
  note a = apply_patch_spec [of L i "fst (fetch_settings L iv i st)"]
  note t = tail_moisture [of i "fst (apply_patch L i (fst (fetch_settings L iv i st)))"]
  show ?thesis
    unfolding tick_def tick_body_unfold reaches_environment_iff
    using f a t by simp
qed

lemma tick_pending:
  "pending (tick L iv i st) =
     (if has_patch st \<and> snd (fetch_settings L iv i st) = None then None else pending st)"
proof -
  note f = settings_only_frame [OF fetch_settings_only [of st L iv i]]
  note a = apply_patch_spec [of L i "fst (fetch_settings L iv i st)"]
  note t = tail_moisture [of i "fst (apply_patch L i (fst (fetch_settings L iv i st)))"]
  show ?thesis
    unfolding tick_def tick_body_unfold
    using f a t by (simp add: has_patch_fetch)
qed

lemma tick_acks:
  "\<exists>es. out (tick L iv i st) = out st @ es
     \<and> (\<forall>b md n. Ack b md n \<in> set es \<longrightarrow>
          (n = ''cmd'' \<and> has_patch st)
          \<or> (n = ''settings applied'' \<and> \<not> settings_applied_acked st)
          \<or> (n = ''sim'' \<and> pump_on (tick L iv i st) = b \<and> mode (tick L iv i st) = Some md
             \<and> (has_patch st \<or> last_ack_state st \<noteq> Some (b, md))))
     \<and> length (filter is_applied_ack es) =
         (if settings_applied_acked (tick L iv i st) \<and> \<not> settings_applied_acked st
          then 1 else 0)
     \<and> (settings_applied_acked st \<longrightarrow> settings_applied_acked (tick L iv i st))
     \<and> (reaches_environment L iv i st \<and> \<not> settings_applied_acked st \<longrightarrow>
          (\<exists>b md. Ack b md ''settings applied'' \<in> set es))"
proof -
  define s1 where "s1 = fst (fetch_settings L iv i st)"
  define s2 where "s2 = fst (apply_patch L i s1)"
  define T where "T = fst (run_steps [ack_settings_applied i, environment i, control,
      ack_change i, report_reading i] s2)"
  have f: "out s1 = out st" "last_ack_state s1 = last_ack_state st"
    "settings_applied_acked s1 = settings_applied_acked st" "has_patch s1 = has_patch st"
    using settings_only_frame [OF fetch_settings_only [of st L iv i]]
    by (simp_all add: s1_def has_patch_fetch)
  have a: "settings_applied_acked s2 = settings_applied_acked st"
    "(out s2 = out st \<and> last_ack_state s2 = last_ack_state st)
     \<or> (has_patch st \<and> snd (apply_patch L i s1) = None
        \<and> (\<exists>d md. out s2 = out st @ [Ack d md ''cmd'']))"
    using apply_patch_spec [of L i s1] f unfolding s2_def by auto
  have a_err: "snd (apply_patch L i s1) \<noteq> None \<Longrightarrow> out s2 = out st"
    using a(2) by auto
  from tail_spec [of i s2] obtain es where
    t1: "out T = out s2 @ es"
    and t2: "\<forall>b md n. Ack b md n \<in> set es \<longrightarrow>
          (n = ''settings applied'' \<and> \<not> settings_applied_acked s2)
          \<or> (n = ''sim'' \<and> pump_on T = b \<and> mode T = Some md
             \<and> last_ack_state s2 \<noteq> Some (b, md))"
    and t3: "length (filter is_applied_ack es) =
         (if settings_applied_acked T \<and> \<not> settings_applied_acked s2 then 1 else 0)"
    and t4: "settings_applied_acked s2 \<longrightarrow> settings_applied_acked T"
    and t5: "snd (ack_settings_applied i s2) = None \<and> \<not> settings_applied_acked s2 \<longrightarrow>
          (\<exists>b md. Ack b md ''settings applied'' \<in> set es)"
    unfolding T_def by blast
  have tk: "tick L iv i st =
      (if snd (fetch_settings L iv i st) = None
       then (if snd (apply_patch L i s1) = None then T else s2) else s1)"
    unfolding tick_def tick_body_unfold s1_def s2_def T_def by simp
  have re: "reaches_environment L iv i st =
      (snd (fetch_settings L iv i st) = None \<and> snd (apply_patch L i s1) = None
       \<and> snd (ack_settings_applied i s2) = None)"
    unfolding reaches_environment_iff s1_def s2_def by simp
  show ?thesis
  proof (cases "snd (fetch_settings L iv i st) = None \<and> snd (apply_patch L i s1) = None")
    case False
    then have "out (tick L iv i st) = out st @ []"
      and "settings_applied_acked (tick L iv i st) = settings_applied_acked st"
      and "\<not> reaches_environment L iv i st"
      using tk f a a_err re by (auto split: if_splits)
    then show ?thesis by (intro exI [of _ "[]"]) simp
  next
    case True
    then have tT: "tick L iv i st = T" using tk by simp
    have rT: "reaches_environment L iv i st = (snd (ack_settings_applied i s2) = None)"
      using re True by simp
    from a(2) show ?thesis
    proof
      assume n: "out s2 = out st \<and> last_ack_state s2 = last_ack_state st"
      then have "out (tick L iv i st) = out st @ es" using tT t1 by simp
      moreover have "\<forall>b md n. Ack b md n \<in> set es \<longrightarrow>
          (n = ''cmd'' \<and> has_patch st)
          \<or> (n = ''settings applied'' \<and> \<not> settings_applied_acked st)
          \<or> (n = ''sim'' \<and> pump_on (tick L iv i st) = b \<and> mode (tick L iv i st) = Some md
             \<and> (has_patch st \<or> last_ack_state st \<noteq> Some (b, md)))"
        using t2 n a(1) tT by auto
      ultimately show ?thesis
        using t3 t4 t5 a(1) tT rT by (intro exI [of _ es]) simp
    next
      assume "has_patch st \<and> snd (apply_patch L i s1) = None
        \<and> (\<exists>d md. out s2 = out st @ [Ack d md ''cmd''])"
      then obtain d md where hp: "has_patch st" and o: "out s2 = out st @ [Ack d md ''cmd'']"
        by blast
      have c1: "out (tick L iv i st) = out st @ (Ack d md ''cmd'' # es)"
        using tT t1 o by simp
      have c2: "\<forall>b m n. Ack b m n \<in> set (Ack d md ''cmd'' # es) \<longrightarrow>
          (n = ''cmd'' \<and> has_patch st)
          \<or> (n = ''settings applied'' \<and> \<not> settings_applied_acked st)
          \<or> (n = ''sim'' \<and> pump_on (tick L iv i st) = b \<and> mode (tick L iv i st) = Some m
             \<and> (has_patch st \<or> last_ack_state st \<noteq> Some (b, m)))"
        using t2 hp a(1) tT by auto
      have c3: "length (filter is_applied_ack (Ack d md ''cmd'' # es)) =
         (if settings_applied_acked (tick L iv i st) \<and> \<not> settings_applied_acked st
          then 1 else 0)"
        using t3 a(1) tT by simp
      have c4: "settings_applied_acked st \<longrightarrow> settings_applied_acked (tick L iv i st)"
        using t4 a(1) tT by simp
      have c5: "reaches_environment L iv i st \<and> \<not> settings_applied_acked st \<longrightarrow>
          (\<exists>b m. Ack b m ''settings applied'' \<in> set (Ack d md ''cmd'' # es))"
        using t5 a(1) rT by auto
      show ?thesis
        by (rule exI [of _ "Ack d md ''cmd'' # es"]) (use c1 c2 c3 c4 c5 in blast)
    qed
  qed
qed


lemma emitted_eq: "out (tick L iv i st) = out st @ es \<Longrightarrow> emitted L iv i st = es"
  by (simp add: emitted_def)

section \<open>Acknowledgements\<close>

lemma tick_applied_count:
  assumes "length (filter is_applied_ack (out st)) = (if settings_applied_acked st then 1 else 0)"
  shows "length (filter is_applied_ack (out (tick L iv i st)))
           = (if settings_applied_acked (tick L iv i st) then 1 else 0)"
proof -
  from tick_acks [of L iv i st] obtain es where
    o: "out (tick L iv i st) = out st @ es"
    and c: "length (filter is_applied_ack es) =
         (if settings_applied_acked (tick L iv i st) \<and> \<not> settings_applied_acked st
          then 1 else 0)"
    and m: "settings_applied_acked st \<longrightarrow> settings_applied_acked (tick L iv i st)"
    by blast
  show ?thesis using assms o c m by (auto split: if_splits)
qed

lemma run_applied_count:
  "length (filter is_applied_ack (out st)) = (if settings_applied_acked st then 1 else 0) \<Longrightarrow>
   length (filter is_applied_ack (out (run L iv as st)))
     = (if settings_applied_acked (run L iv as st) then 1 else 0)"
proof (induction as arbitrary: st)
  case Nil
  then show ?case by simp
next
  case (Cons a as)
  have "length (filter is_applied_ack (out (act L iv a st)))
      = (if settings_applied_acked (act L iv a st) then 1 else 0)"
  proof (cases a)
    case (Tick i)
    then show ?thesis using tick_applied_count [OF Cons.prems] by simp
  next
    case (Command p)
    then show ?thesis using Cons.prems by (simp add: on_command_def)
  next
    case SettingsEvent
    then show ?thesis using Cons.prems by (simp add: on_settings_def)
  qed
  then show ?case using Cons.IH by simp
qed

section \<open>The pending patch\<close>

text \<open>
  C9. A tick that gets past the settings read with a patch pending leaves
  \<open>pending\<close> empty, whether or not the merge then raises: the patch block clears it
  first. Any other tick leaves \<open>pending\<close> as it was, so a tick never stores a patch;
  only the listener's \<open>on_command\<close> does. Hence the tick after a consuming tick finds
  no patch and sends no \<open>cmd\<close> acknowledgement.
\<close>

theorem pending_patch_single_consumption:
  "pending (tick L iv i st) =
     (if has_patch st \<and> snd (fetch_settings L iv i st) = None then None else pending st)
   \<and> (has_patch st \<longrightarrow> pending (fst (apply_patch L i st)) = None)
   \<and> (has_patch st \<and> snd (fetch_settings L iv i st) = None \<longrightarrow>
        \<not> has_patch (tick L iv i st)
        \<and> (\<forall>b md. Ack b md ''cmd'' \<notin> set (emitted L iv j (tick L iv i st)))
        \<and> pending (tick L iv j (tick L iv i st)) = None)
   \<and> pending (on_command p st) = Some p
   \<and> pending (on_settings st) = pending st"
proof -
  have 1: "pending (tick L iv i st) =
     (if has_patch st \<and> snd (fetch_settings L iv i st) = None then None else pending st)"
    by (rule tick_pending)
  have 2: "has_patch st \<longrightarrow> pending (fst (apply_patch L i st)) = None"
    using apply_patch_spec [of L i st] by simp
  have 3: "has_patch st \<and> snd (fetch_settings L iv i st) = None \<longrightarrow>
        \<not> has_patch (tick L iv i st)
        \<and> (\<forall>b md. Ack b md ''cmd'' \<notin> set (emitted L iv j (tick L iv i st)))
        \<and> pending (tick L iv j (tick L iv i st)) = None"
  proof
    assume h: "has_patch st \<and> snd (fetch_settings L iv i st) = None"
    then have p: "pending (tick L iv i st) = None" using 1 by simp
    then have n: "\<not> has_patch (tick L iv i st)" by (simp add: has_patch_def)
    from tick_acks [of L iv j "tick L iv i st"] obtain es where
      o: "out (tick L iv j (tick L iv i st)) = out (tick L iv i st) @ es"
      and a: "\<forall>b md n. Ack b md n \<in> set es \<longrightarrow>
          (n = ''cmd'' \<and> has_patch (tick L iv i st))
          \<or> (n = ''settings applied'' \<and> \<not> settings_applied_acked (tick L iv i st))
          \<or> (n = ''sim'' \<and> pump_on (tick L iv j (tick L iv i st)) = b
             \<and> mode (tick L iv j (tick L iv i st)) = Some md
             \<and> (has_patch (tick L iv i st) \<or> last_ack_state (tick L iv i st) \<noteq> Some (b, md)))"
      by blast
    have "emitted L iv j (tick L iv i st) = es" using o by (rule emitted_eq)
    with a n have "\<forall>b md. Ack b md ''cmd'' \<notin> set (emitted L iv j (tick L iv i st))"
      by fastforce
    moreover have "pending (tick L iv j (tick L iv i st)) = None"
      using tick_pending [of L iv j "tick L iv i st"] p n by simp
    ultimately show "\<not> has_patch (tick L iv i st)
        \<and> (\<forall>b md. Ack b md ''cmd'' \<notin> set (emitted L iv j (tick L iv i st)))
        \<and> pending (tick L iv j (tick L iv i st)) = None"
      using n by blast
  qed
  have 4: "pending (on_command p st) = Some p \<and> pending (on_settings st) = pending st"
    by (simp add: on_command_def on_settings_def)
  from 1 2 3 4 show ?thesis by blast
qed

theorem pending_patch_single_consumption_witness:
  "has_patch (on_command [(''pumpMode'', JStr ''manual'')] (initial 40))
   \<and> snd (fetch_settings plain_rt 60 (all_ok (FetchBody (JObj [])) 0 0)
            (on_command [(''pumpMode'', JStr ''manual'')] (initial 40))) = None
   \<and> emitted plain_rt 60 (all_ok (FetchBody (JObj [])) 0 0)
        (on_command [(''pumpMode'', JStr ''manual'')] (initial 40))
       = [Ack False ''manual'' ''cmd'', Ack False ''manual'' ''settings applied'',
          Reading 40 False 2480]
   \<and> pending (tick plain_rt 60 (all_ok (FetchBody (JObj [])) 0 0)
        (on_command [(''pumpMode'', JStr ''manual'')] (initial 40))) = None
   \<and> emitted plain_rt 60 (all_ok (FetchBody (JObj [])) 0 0)
        (tick plain_rt 60 (all_ok (FetchBody (JObj [])) 0 0)
          (on_command [(''pumpMode'', JStr ''manual'')] (initial 40)))
       = [Ack False ''auto'' ''sim'', Reading 40 False 2480]"
  using pending_patch_single_consumption
    [where L = plain_rt and iv = 60 and i = "all_ok (FetchBody (JObj [])) 0 0"
       and j = "all_ok (FetchBody (JObj [])) 0 0"
       and st = "on_command [(''pumpMode'', JStr ''manual'')] (initial 40)"
       and p = "[]"]
  by (simp add: eval_defs has_patch_def)

section \<open>Reproducibility of the moisture sequence\<close>

lemma sin_1_ge_half: "1 / 2 \<le> sin (1::real)"
proof -
  have "sin (pi / 6) \<le> sin (1::real)"
    using pi_ge_two pi_less_4 by (intro sin_monotone_2pi_le) auto
  then show ?thesis by (simp add: sin_30)
qed

lemma sine_term_0: "sine_term 0 = 0"
  by (simp add: sine_term_def py_trunc_def)

lemma sine_term_60: "2 \<le> sine_term 60 \<and> sine_term 60 \<le> 5"
proof -
  have "5 / 2 \<le> 5 * sin (1::real)" using sin_1_ge_half by simp
  then have "2 \<le> \<lfloor>5 * sin (1::real)\<rfloor>" by linarith
  moreover have "5 * sin (1::real) \<le> 5" using sin_le_one [of 1] by simp
  then have "\<lfloor>5 * sin (1::real)\<rfloor> \<le> 5" by linarith
  ultimately show ?thesis
    using sin_1_ge_half by (simp add: sine_term_def py_trunc_def)
qed

text \<open>
  C4, as amended. The results of \<^verbatim>\<open>random.randint\<close> are inputs of the model; a fixed
  seed fixes them. Two runs whose ticks all reach the environment step, that start from
  the same moisture and see the same draws and the same values of the sine term at every
  tick, have the same moisture sequence, whatever their settings, patches, pump states
  and request outcomes.
\<close>

theorem moisture_sequence_determined:
  "list_all2 (\<lambda>i j. draw i = draw j \<and> sine i = sine j) is js \<Longrightarrow>
   moisture st = moisture st' \<Longrightarrow>
   all_reach L iv is st \<Longrightarrow> all_reach L' iv' js st' \<Longrightarrow>
   moistures L iv is st = moistures L' iv' js st'"
proof (induction "is" js arbitrary: st st' rule: list_all2_induct)
  case Nil
  then show ?case by simp
next
  case (Cons i "is" j js)
  have m: "moisture (tick L iv i st) = moisture (tick L' iv' j st')"
    using Cons.hyps(1) Cons.prems by (simp add: tick_moisture)
  moreover have "moistures L iv is (tick L iv i st) = moistures L' iv' js (tick L' iv' j st')"
    using Cons.IH [OF m] Cons.prems by simp
  ultimately show ?case by simp
qed

theorem moisture_sequence_determined_witness:
  "all_reach plain_rt 60
     [all_ok (FetchBody (JObj [(''pumpMode'', JStr ''manual''), (''overridePumpOn'', JBool True)])) 2 1,
      all_ok FetchNotOk (- 1) 3] (initial 40)
   \<and> all_reach plain_rt 5
       [all_ok (FetchBody (JObj [])) 2 1,
        all_ok (FetchBody (JObj [(''pumpOnBelow'', JInt 50)])) (- 1) 3]
       (on_command [(''pumpOffAbove'', JInt 70)] (initial 40))
   \<and> moistures plain_rt 60
       [all_ok (FetchBody (JObj [(''pumpMode'', JStr ''manual''), (''overridePumpOn'', JBool True)])) 2 1,
        all_ok FetchNotOk (- 1) 3] (initial 40)
     = moistures plain_rt 5
       [all_ok (FetchBody (JObj [])) 2 1,
        all_ok (FetchBody (JObj [(''pumpOnBelow'', JInt 50)])) (- 1) 3]
       (on_command [(''pumpOffAbove'', JInt 70)] (initial 40))
   \<and> moistures plain_rt 60
       [all_ok (FetchBody (JObj [(''pumpMode'', JStr ''manual''), (''overridePumpOn'', JBool True)])) 2 1,
        all_ok FetchNotOk (- 1) 3] (initial 40) = [43, 45]"
proof -
  have r1: "all_reach plain_rt 60
     [all_ok (FetchBody (JObj [(''pumpMode'', JStr ''manual''), (''overridePumpOn'', JBool True)])) 2 1,
      all_ok FetchNotOk (- 1) 3] (initial 40)"
    by (simp add: eval_defs reaches_environment_def before_environment_def)
  have r2: "all_reach plain_rt 5
       [all_ok (FetchBody (JObj [])) 2 1,
        all_ok (FetchBody (JObj [(''pumpOnBelow'', JInt 50)])) (- 1) 3]
       (on_command [(''pumpOffAbove'', JInt 70)] (initial 40))"
    by (simp add: eval_defs reaches_environment_def before_environment_def)
  have l: "list_all2 (\<lambda>i j. draw i = draw j \<and> sine i = sine j)
     [all_ok (FetchBody (JObj [(''pumpMode'', JStr ''manual''), (''overridePumpOn'', JBool True)])) 2 1,
      all_ok FetchNotOk (- 1) 3]
     [all_ok (FetchBody (JObj [])) 2 1,
      all_ok (FetchBody (JObj [(''pumpOnBelow'', JInt 50)])) (- 1) 3]"
    by (simp add: all_ok_def)
  have m: "moisture (initial 40) = moisture (on_command [(''pumpOffAbove'', JInt 70)] (initial 40))"
    by (simp add: initial_def on_command_def)
  have v: "moistures plain_rt 60
       [all_ok (FetchBody (JObj [(''pumpMode'', JStr ''manual''), (''overridePumpOn'', JBool True)])) 2 1,
        all_ok FetchNotOk (- 1) 3] (initial 40) = [43, 45]"
    by (simp add: eval_defs)
  from moisture_sequence_determined [OF l m r1 r2] r1 r2 v show ?thesis by simp
qed

text \<open>
  C4 as stated fails: two one-tick runs with the same draw, hence the same seed, that
  read the clock at 0 and at 60 seconds have different moisture sequences.
\<close>

theorem clock_breaks_reproducibility_counterexample:
  "draw (all_ok (FetchBody (JObj [])) 0 (sine_term 0))
     = draw (all_ok (FetchBody (JObj [])) 0 (sine_term 60))
   \<and> moistures plain_rt 60 [all_ok (FetchBody (JObj [])) 0 (sine_term 0)] (initial 40)
     \<noteq> moistures plain_rt 60 [all_ok (FetchBody (JObj [])) 0 (sine_term 60)] (initial 40)"
proof -
  have r: "reaches_environment plain_rt 60 (all_ok (FetchBody (JObj [])) 0 s) (initial 40)" for s
    by (simp add: eval_defs reaches_environment_def before_environment_def)
  have "moisture (tick plain_rt 60 (all_ok (FetchBody (JObj [])) 0 s) (initial 40))
      = advance 40 0 s" for s
    using r [of s] by (simp add: tick_moisture) (simp add: initial_def all_ok_def)
  then have "moistures plain_rt 60 [all_ok (FetchBody (JObj [])) 0 s] (initial 40)
      = [advance 40 0 s]" for s
    by simp
  moreover have "advance 40 0 (sine_term 0) = 40"
    by (simp add: sine_term_0 advance_def clamp_def)
  moreover have "advance 40 0 (sine_term 60) \<noteq> 40"
    using sine_term_60 by (simp add: advance_def clamp_def)
  ultimately show ?thesis by (simp add: all_ok_def)
qed

section \<open>The variables a tick reads\<close>

lemma assign_mode_binds:
  "assign_mode j s = (s', None) \<Longrightarrow> \<exists>x. s' = s\<lparr>mode := Some x\<rparr>"
  by (auto simp: assign_mode_def split: sum.splits json.splits)

lemma assign_override_on_binds:
  "assign_override_on j s = (s', None) \<Longrightarrow> \<exists>x. s' = s\<lparr>override_on := Some x\<rparr>"
  by (auto simp: assign_override_on_def split: sum.splits)

lemma assign_on_below_binds:
  "assign_on_below L j s = (s', None) \<Longrightarrow> \<exists>x. s' = s\<lparr>on_below := Some x\<rparr>"
  by (auto simp: assign_on_below_def split: sum.splits)

lemma assign_off_above_binds:
  "assign_off_above L j s = (s', None) \<Longrightarrow> \<exists>x. s' = s\<lparr>off_above := Some x\<rparr>"
  by (auto simp: assign_off_above_def split: sum.splits)

lemma assign_send_interval_binds:
  "assign_send_interval L iv j s = (s', None) \<Longrightarrow> \<exists>x. s' = s\<lparr>send_interval := Some x\<rparr>"
  by (auto simp: assign_send_interval_def split: sum.splits if_splits)

lemma fetch_settings_binds:
  assumes "snd (fetch_settings L iv i st) = None"
  shows "settings_bound (fst (fetch_settings L iv i st))"
proof (cases "get_settings (fetch i)")
  case (Inl e)
  with assms show ?thesis by (simp add: fetch_settings_def)
next
  case (Inr j)
  define r where "r = run_steps [assign_mode j, assign_override_on j, assign_on_below L j,
      assign_off_above L j, assign_send_interval L iv j] st"
  have fr: "fetch_settings L iv i st = r" using Inr by (simp add: fetch_settings_def r_def)
  with assms have "r = (fst r, None)" by (metis prod.collapse)
  then have c: "run_steps [assign_mode j, assign_override_on j, assign_on_below L j,
      assign_off_above L j, assign_send_interval L iv j] st = (fst r, None)"
    by (simp add: r_def)
  from c obtain s1 where 1: "assign_mode j st = (s1, None)"
    and r1: "run_steps [assign_override_on j, assign_on_below L j, assign_off_above L j,
                        assign_send_interval L iv j] s1 = (fst r, None)"
    by (blast dest: run_steps_complete_Cons)
  from r1 obtain s2 where 2: "assign_override_on j s1 = (s2, None)"
    and r2: "run_steps [assign_on_below L j, assign_off_above L j,
                        assign_send_interval L iv j] s2 = (fst r, None)"
    by (blast dest: run_steps_complete_Cons)
  from r2 obtain s3 where 3: "assign_on_below L j s2 = (s3, None)"
    and r3: "run_steps [assign_off_above L j, assign_send_interval L iv j] s3 = (fst r, None)"
    by (blast dest: run_steps_complete_Cons)
  from r3 obtain s4 where 4: "assign_off_above L j s3 = (s4, None)"
    and r4: "run_steps [assign_send_interval L iv j] s4 = (fst r, None)"
    by (blast dest: run_steps_complete_Cons)
  from r4 have 5: "assign_send_interval L iv j s4 = (fst r, None)"
    by (auto split: prod.splits option.splits)
  from assign_mode_binds [OF 1] obtain a where a: "s1 = st\<lparr>mode := Some a\<rparr>" ..
  from assign_override_on_binds [OF 2] obtain b where b: "s2 = s1\<lparr>override_on := Some b\<rparr>" ..
  from assign_on_below_binds [OF 3] obtain c where c: "s3 = s2\<lparr>on_below := Some c\<rparr>" ..
  from assign_off_above_binds [OF 4] obtain d where d: "s4 = s3\<lparr>off_above := Some d\<rparr>" ..
  from assign_send_interval_binds [OF 5] obtain e where e: "fst r = s4\<lparr>send_interval := Some e\<rparr>" ..
  show ?thesis unfolding fr using a b c d e by (simp add: settings_bound_def)
qed

lemma patch_steps_keep_bound:
  "settings_bound s \<Longrightarrow> settings_bound (fst (patch_mode L p s))"
  "settings_bound s \<Longrightarrow> settings_bound (fst (patch_override_on p s))"
  "settings_bound s \<Longrightarrow> settings_bound (fst (patch_on_below L p s))"
  "settings_bound s \<Longrightarrow> settings_bound (fst (patch_off_above L p s))"
  "settings_bound s \<Longrightarrow> settings_bound (fst (patch_send_interval L p s))"
  by (auto simp: settings_bound_def patch_mode_def patch_override_on_def patch_on_below_def
      patch_off_above_def patch_send_interval_def Let_def split: sum.splits option.splits)

lemma py_int_error: "py_int L v = Inl e \<Longrightarrow> e = TypeError \<or> e = ValueError"
  by (cases v) (auto split: option.splits)

lemma py_float_error: "py_float L v = Inl e \<Longrightarrow> e = TypeError \<or> e = ValueError"
  by (cases v) (auto split: option.splits)

lemma patch_steps_no_unbound:
  "settings_bound s \<Longrightarrow> snd (patch_mode L p s) \<noteq> Some UnboundLocalError"
  "snd (patch_override_on p s) \<noteq> Some UnboundLocalError"
  "settings_bound s \<Longrightarrow> snd (patch_on_below L p s) \<noteq> Some UnboundLocalError"
  "settings_bound s \<Longrightarrow> snd (patch_off_above L p s) \<noteq> Some UnboundLocalError"
  "snd (patch_send_interval L p s) \<noteq> Some UnboundLocalError"
  by (auto simp: settings_bound_def patch_mode_def patch_override_on_def patch_on_below_def
      patch_off_above_def patch_send_interval_def Let_def
      split: sum.splits option.splits dest: py_int_error)

lemma run_steps_invariant:
  assumes "\<And>f s. f \<in> set fs \<Longrightarrow> I s \<Longrightarrow> I (fst (f s)) \<and> snd (f s) \<noteq> Some e"
    and "I st"
  shows "I (fst (run_steps fs st)) \<and> snd (run_steps fs st) \<noteq> Some e"
  using assms
proof (induction fs arbitrary: st)
  case Nil
  then show ?case by simp
next
  case (Cons f fs)
  have f: "I (fst (f st)) \<and> snd (f st) \<noteq> Some e" using Cons.prems by simp
  show ?case
  proof (cases "snd (f st) = None")
    case True
    have "I (fst (run_steps fs (fst (f st)))) \<and> snd (run_steps fs (fst (f st))) \<noteq> Some e"
      using Cons.IH [of "fst (f st)"] Cons.prems(1) f by simp
    with True show ?thesis by (simp add: run_steps_Cons_if del: run_steps.simps)
  next
    case False
    with f show ?thesis by (auto simp add: run_steps_Cons_if simp del: run_steps.simps)
  qed
qed

lemma assign_steps_no_unbound:
  "snd (assign_mode j s) \<noteq> Some UnboundLocalError"
  "snd (assign_override_on j s) \<noteq> Some UnboundLocalError"
  "snd (assign_on_below L j s) \<noteq> Some UnboundLocalError"
  "snd (assign_off_above L j s) \<noteq> Some UnboundLocalError"
  "snd (assign_send_interval L iv j s) \<noteq> Some UnboundLocalError"
  by (auto simp: assign_mode_def assign_override_on_def assign_on_below_def
      assign_off_above_def assign_send_interval_def json_get_def
      split: sum.splits json.splits dest: py_int_error py_float_error)

lemma fetch_settings_no_unbound: "snd (fetch_settings L iv i st) \<noteq> Some UnboundLocalError"
proof (cases "get_settings (fetch i)")
  case (Inl e)
  then show ?thesis
    by (auto simp: fetch_settings_def get_settings_def split: fetch_result.splits)
next
  case (Inr j)
  have "True \<and> snd (run_steps [assign_mode j, assign_override_on j, assign_on_below L j,
      assign_off_above L j, assign_send_interval L iv j] st) \<noteq> Some UnboundLocalError"
    by (rule run_steps_invariant [where I = "\<lambda>s. True"])
       (auto simp: assign_steps_no_unbound)
  with Inr show ?thesis by (simp add: fetch_settings_def)
qed

lemma merge_patch_bound:
  assumes "settings_bound s"
  shows "settings_bound (fst (merge_patch L p s))
    \<and> snd (merge_patch L p s) \<noteq> Some UnboundLocalError"
  unfolding merge_patch_def
  by (rule run_steps_invariant [where I = settings_bound])
     (use assms in \<open>auto simp: patch_steps_keep_bound patch_steps_no_unbound\<close>)

lemma command_ack_bound:
  "settings_bound s \<Longrightarrow>
   settings_bound (fst (command_ack i s)) \<and> snd (command_ack i s) \<noteq> Some UnboundLocalError"
  by (auto simp: settings_bound_def command_ack_def Let_def split: option.splits)

lemma apply_patch_bound:
  assumes "settings_bound s"
  shows "settings_bound (fst (apply_patch L i s))
    \<and> snd (apply_patch L i s) \<noteq> Some UnboundLocalError"
proof (cases "has_patch s")
  case False
  with assms show ?thesis by (simp add: apply_patch_no_patch)
next
  case True
  then obtain p where p: "pending s = Some p" "p \<noteq> []"
    by (auto simp: has_patch_def split: option.splits)
  have t: "settings_bound (s\<lparr>pending := None\<rparr>)"
    using assms by (simp add: settings_bound_def)
  note m = merge_patch_bound [OF t, of L p]
  note c = command_ack_bound [of "fst (merge_patch L p (s\<lparr>pending := None\<rparr>))" i]
  show ?thesis
    using p m c
    by (simp add: apply_patch_def take_patch_def run_steps_three del: run_steps.simps)
qed

lemma tail_bound:
  "settings_bound s \<Longrightarrow>
   snd (run_steps [ack_settings_applied i, environment i, control, ack_change i,
                   report_reading i] s) \<noteq> Some UnboundLocalError"
  by (auto simp: settings_bound_def ack_settings_applied_def environment_def control_def
      ack_change_def report_reading_def Let_def split: option.splits)

text \<open>
  Every variable a tick reads has been assigned when it is read: no tick raises
  UnboundLocalError, from any state.
\<close>

lemma tick_reads_assigned: "tick_error L iv i st \<noteq> Some UnboundLocalError"
proof (cases "snd (fetch_settings L iv i st) = None")
  case False
  then show ?thesis
    using fetch_settings_no_unbound [of L iv i st]
    by (auto simp add: tick_error_def tick_body_unfold simp del: run_steps.simps)
next
  case True
  note b = fetch_settings_binds [OF True]
  note a = apply_patch_bound [OF b, of L i]
  from a have t: "snd (run_steps [ack_settings_applied i, environment i, control,
      ack_change i, report_reading i] (fst (apply_patch L i (fst (fetch_settings L iv i st)))))
      \<noteq> Some UnboundLocalError"
    by (intro tail_bound) simp
  show ?thesis
    using True a t
    by (auto simp add: tick_error_def tick_body_unfold simp del: run_steps.simps)
qed

section \<open>The order of acknowledgements\<close>

lemmas tail_defs = tail_def ack_settings_applied_def environment_def control_def ack_change_def
      report_reading_def Let_def

lemma tail_out: "out (fst (tail i s)) = out s @ tail_events i s"
  by (auto simp: tail_events_def tail_defs split: option.splits)

lemma tail_no_repeat: "no_repeated_pair (last_ack_state s) (tail_events i s)"
  by (auto simp: tail_events_def tail_defs split: option.splits)

lemma tail_last_pair:
  "last_pair (last_ack_state s) (tail_events i s) = last_ack_state (fst (tail i s))"
  by (auto simp: tail_events_def tail_defs split: option.splits)

lemma tail_sim:
  "Ack b md ''sim'' \<in> set (tail_events i s) \<Longrightarrow>
     last_ack_state s \<noteq> Some (b, md) \<and> last_ack_state (fst (tail i s)) = Some (b, md)"
  by (auto simp: tail_events_def tail_defs split: option.splits if_splits)

lemma tail_no_cmd: "Ack b md ''cmd'' \<notin> set (tail_events i s)"
  by (auto simp: tail_events_def tail_defs split: option.splits if_splits)

lemma tail_flag:
  "settings_applied_acked (fst (tail i s))
     = (settings_applied_acked s \<or> (\<exists>b md. Ack b md ''settings applied'' \<in> set (tail_events i s)))"
  by (auto simp: tail_events_def tail_defs split: option.splits if_splits)

lemma tail_applied:
  "\<not> settings_applied_acked s \<Longrightarrow> mode s \<noteq> None \<Longrightarrow>
     (if applied_ack_ok i then \<exists>b md. Ack b md ''settings applied'' \<in> set (tail_events i s)
      else tail i s = (s, Some RequestException))"
  by (auto simp: tail_events_def tail_defs split: option.splits if_splits)

lemma last_pair_append: "last_pair l (xs @ ys) = last_pair (last_pair l xs) ys"
  by (induction l xs rule: last_pair.induct) simp_all

lemma no_repeated_pair_append:
  "no_repeated_pair l (xs @ ys)
     = (no_repeated_pair l xs \<and> no_repeated_pair (last_pair l xs) ys)"
  by (induction l xs rule: no_repeated_pair.induct) auto

lemma apply_patch_cmd:
  assumes "has_patch s" and "snd (apply_patch L i s) = None"
  shows "\<exists>d md. out (fst (apply_patch L i s)) = out s @ [Ack d md ''cmd'']
           \<and> last_ack_state (fst (apply_patch L i s)) = Some (d, md)"
proof -
  from assms(1) obtain p where p: "pending s = Some p" "p \<noteq> []"
    by (auto simp: has_patch_def split: option.splits)
  define t where "t = s\<lparr>pending := None\<rparr>"
  define m where "m = fst (merge_patch L p t)"
  have fr: "out m = out t"
    unfolding m_def using settings_only_frame [OF merge_patch_settings_only] by blast
  have ap: "apply_patch L i s =
      (if snd (merge_patch L p t) = None then command_ack i m else merge_patch L p t)"
    using p by (simp add: apply_patch_def take_patch_def run_steps_three t_def m_def
        del: run_steps.simps)
  with assms(2) have eq: "apply_patch L i s = command_ack i m"
    by (auto split: if_splits)
  with assms(2) have "snd (command_ack i m) = None" by simp
  with command_ack_cases [of i m] obtain d md where
    "fst (command_ack i m) =
       m\<lparr>out := out m @ [Ack d md ''cmd''], last_ack_state := Some (d, md), pump_on := d\<rparr>"
    by auto
  with eq fr show ?thesis by (simp add: t_def)
qed

lemma reaches_settings_ack_iff:
  "reaches_settings_ack L iv i st =
     (snd (fetch_settings L iv i st) = None
      \<and> snd (apply_patch L i (fst (fetch_settings L iv i st))) = None)"
  by (cases "fetch_settings L iv i st"; cases "apply_patch L i (fst (fetch_settings L iv i st))")
     (auto simp: reaches_settings_ack_def split: option.splits)

lemma tick_policy:
  "\<exists>es. out (tick L iv i st) = out st @ es
     \<and> no_repeated_pair (last_ack_state st) es
     \<and> last_pair (last_ack_state st) es = last_ack_state (tick L iv i st)
     \<and> (\<forall>b md. Ack b md ''sim'' \<in> set es \<longrightarrow>
          last_ack_state (tick L iv i st) = Some (b, md)
          \<and> (has_patch st \<longrightarrow> (\<exists>d m. Ack d m ''cmd'' \<in> set es \<and> (d, m) \<noteq> (b, md)))
          \<and> (\<not> has_patch st \<longrightarrow> last_ack_state st \<noteq> Some (b, md)))
     \<and> settings_applied_acked (tick L iv i st)
         = (settings_applied_acked st \<or> (\<exists>b md. Ack b md ''settings applied'' \<in> set es))
     \<and> (reaches_settings_ack L iv i st \<and> \<not> settings_applied_acked st \<longrightarrow>
          (if applied_ack_ok i then \<exists>b md. Ack b md ''settings applied'' \<in> set es
           else tick_error L iv i st = Some RequestException
                \<and> \<not> settings_applied_acked (tick L iv i st)))"
proof -
  define s1 where "s1 = fst (fetch_settings L iv i st)"
  define s2 where "s2 = fst (apply_patch L i s1)"
  define T where "T = fst (tail i s2)"
  define es where "es = tail_events i s2"
  have f: "out s1 = out st" "last_ack_state s1 = last_ack_state st"
    "settings_applied_acked s1 = settings_applied_acked st" "has_patch s1 = has_patch st"
    using settings_only_frame [OF fetch_settings_only [of st L iv i]]
    by (simp_all add: s1_def has_patch_fetch)
  have a1: "settings_applied_acked s2 = settings_applied_acked st"
    using apply_patch_spec [of L i s1] f unfolding s2_def by simp
  have a_err: "snd (apply_patch L i s1) \<noteq> None \<Longrightarrow>
      out s2 = out st \<and> last_ack_state s2 = last_ack_state st"
    using apply_patch_spec [of L i s1] f unfolding s2_def by auto
  have a_none: "\<not> has_patch st \<Longrightarrow> s2 = s1"
    using apply_patch_no_patch [of s1 L i] f unfolding s2_def by simp
  have a_cmd: "has_patch st \<Longrightarrow> snd (apply_patch L i s1) = None \<Longrightarrow>
      \<exists>d md. out s2 = out st @ [Ack d md ''cmd''] \<and> last_ack_state s2 = Some (d, md)"
    using apply_patch_cmd [of s1 L i] f unfolding s2_def by simp
  have t1: "out T = out s2 @ es"
    unfolding T_def es_def by (rule tail_out)
  have t2: "no_repeated_pair (last_ack_state s2) es"
    unfolding es_def by (rule tail_no_repeat)
  have t3: "last_pair (last_ack_state s2) es = last_ack_state T"
    unfolding T_def es_def by (rule tail_last_pair)
  have t4: "Ack b md ''sim'' \<in> set es \<Longrightarrow>
          last_ack_state s2 \<noteq> Some (b, md) \<and> last_ack_state T = Some (b, md)" for b md
    unfolding T_def es_def by (rule tail_sim)
  have t5: "Ack b md ''cmd'' \<notin> set es" for b md
    unfolding es_def by (rule tail_no_cmd)
  have t6: "settings_applied_acked T
         = (settings_applied_acked s2 \<or> (\<exists>b md. Ack b md ''settings applied'' \<in> set es))"
    unfolding T_def es_def by (rule tail_flag)
  have t7: "\<not> settings_applied_acked s2 \<Longrightarrow> mode s2 \<noteq> None \<Longrightarrow>
          (if applied_ack_ok i then \<exists>b md. Ack b md ''settings applied'' \<in> set es
           else tail i s2 = (s2, Some RequestException))"
    unfolding es_def by (rule tail_applied)
  have tb: "tick_body L iv i st =
      (if snd (fetch_settings L iv i st) = None
       then (if snd (apply_patch L i s1) = None then tail i s2 else apply_patch L i s1)
       else fetch_settings L iv i st)"
    unfolding tick_body_unfold s1_def s2_def tail_def by simp
  have re: "reaches_settings_ack L iv i st =
      (snd (fetch_settings L iv i st) = None \<and> snd (apply_patch L i s1) = None)"
    unfolding reaches_settings_ack_iff s1_def by simp
  show ?thesis
  proof (cases "reaches_settings_ack L iv i st")
    case False
    have "out (tick L iv i st) = out st \<and> last_ack_state (tick L iv i st) = last_ack_state st
      \<and> settings_applied_acked (tick L iv i st) = settings_applied_acked st"
    proof (cases "snd (fetch_settings L iv i st) = None")
      case True
      with False re have e2: "snd (apply_patch L i s1) \<noteq> None" by simp
      with True tb have "tick L iv i st = s2" by (simp add: tick_def s2_def)
      with a_err [OF e2] a1 show ?thesis by simp
    next
      case False
      with tb have "tick L iv i st = s1" by (simp add: tick_def s1_def)
      with f show ?thesis by simp
    qed
    with False show ?thesis by (intro exI [of _ "[]"]) simp
  next
    case True
    then have ok: "snd (fetch_settings L iv i st) = None" "snd (apply_patch L i s1) = None"
      using re by simp_all
    then have tT: "tick L iv i st = T" and tE: "tick_error L iv i st = snd (tail i s2)"
      using tb by (simp_all add: tick_def tick_error_def T_def)
    have bound: "mode s2 \<noteq> None"
      using apply_patch_bound [OF fetch_settings_binds [OF ok(1)], of L i]
      by (simp add: settings_bound_def s1_def s2_def)
    have c5: "settings_applied_acked (tick L iv i st)
         = (settings_applied_acked st \<or> (\<exists>b md. Ack b md ''settings applied'' \<in> set es))"
      using t6 a1 tT by simp
    have c6: "reaches_settings_ack L iv i st \<and> \<not> settings_applied_acked st \<longrightarrow>
          (if applied_ack_ok i then \<exists>b md. Ack b md ''settings applied'' \<in> set es
           else tick_error L iv i st = Some RequestException
                \<and> \<not> settings_applied_acked (tick L iv i st))"
    proof
      assume "reaches_settings_ack L iv i st \<and> \<not> settings_applied_acked st"
      then have n: "\<not> settings_applied_acked s2" using a1 by simp
      show "if applied_ack_ok i then \<exists>b md. Ack b md ''settings applied'' \<in> set es
           else tick_error L iv i st = Some RequestException
                \<and> \<not> settings_applied_acked (tick L iv i st)"
      proof (cases "applied_ack_ok i")
        case True
        with t7 [OF n bound] show ?thesis by simp
      next
        case False
        with t7 [OF n bound] have "tail i s2 = (s2, Some RequestException)" by simp
        with False tT tE n show ?thesis by (simp add: T_def)
      qed
    qed
    show ?thesis
    proof (cases "has_patch st")
      case False
      then have s: "out s2 = out st" "last_ack_state s2 = last_ack_state st"
        using a_none f by simp_all
      have c1: "out (tick L iv i st) = out st @ es" using tT t1 s by simp
      have c2: "no_repeated_pair (last_ack_state st) es" using t2 s by simp
      have c3: "last_pair (last_ack_state st) es = last_ack_state (tick L iv i st)"
        using t3 s tT by simp
      have c4: "\<forall>b md. Ack b md ''sim'' \<in> set es \<longrightarrow>
          last_ack_state (tick L iv i st) = Some (b, md)
          \<and> (has_patch st \<longrightarrow> (\<exists>d m. Ack d m ''cmd'' \<in> set es \<and> (d, m) \<noteq> (b, md)))
          \<and> (\<not> has_patch st \<longrightarrow> last_ack_state st \<noteq> Some (b, md))"
        using t4 s tT False by simp
      show ?thesis
        by (rule exI [of _ es]) (use c1 c2 c3 c4 c5 c6 in blast)
    next
      case True
      from a_cmd [OF True ok(2)] obtain d m where
        o: "out s2 = out st @ [Ack d m ''cmd'']" and l: "last_ack_state s2 = Some (d, m)"
        by blast
      define es' where "es' = Ack d m ''cmd'' # es"
      have c1: "out (tick L iv i st) = out st @ es'"
        using tT t1 o by (simp add: es'_def)
      have c2: "no_repeated_pair (last_ack_state st) es'"
        using t2 l by (simp add: es'_def)
      have c3: "last_pair (last_ack_state st) es' = last_ack_state (tick L iv i st)"
        using t3 l tT by (simp add: es'_def)
      have c4: "\<forall>b md. Ack b md ''sim'' \<in> set es' \<longrightarrow>
          last_ack_state (tick L iv i st) = Some (b, md)
          \<and> (has_patch st \<longrightarrow> (\<exists>d' m'. Ack d' m' ''cmd'' \<in> set es' \<and> (d', m') \<noteq> (b, md)))
          \<and> (\<not> has_patch st \<longrightarrow> last_ack_state st \<noteq> Some (b, md))"
      proof (intro allI impI)
        fix b md assume "Ack b md ''sim'' \<in> set es'"
        then have m: "Ack b md ''sim'' \<in> set es" by (simp add: es'_def)
        from t4 [OF m] l have ne: "(d, m) \<noteq> (b, md)" and la: "last_ack_state T = Some (b, md)"
          by auto
        have "Ack d m ''cmd'' \<in> set es'" by (simp add: es'_def)
        with ne have "\<exists>d' m'. Ack d' m' ''cmd'' \<in> set es' \<and> (d', m') \<noteq> (b, md)" by blast
        with la tT True show "last_ack_state (tick L iv i st) = Some (b, md)
          \<and> (has_patch st \<longrightarrow> (\<exists>d' m'. Ack d' m' ''cmd'' \<in> set es' \<and> (d', m') \<noteq> (b, md)))
          \<and> (\<not> has_patch st \<longrightarrow> last_ack_state st \<noteq> Some (b, md))"
          by simp
      qed
      have c5': "settings_applied_acked (tick L iv i st)
         = (settings_applied_acked st \<or> (\<exists>b md. Ack b md ''settings applied'' \<in> set es'))"
        using c5 by (simp add: es'_def)
      have c6': "reaches_settings_ack L iv i st \<and> \<not> settings_applied_acked st \<longrightarrow>
          (if applied_ack_ok i then \<exists>b md. Ack b md ''settings applied'' \<in> set es'
           else tick_error L iv i st = Some RequestException
                \<and> \<not> settings_applied_acked (tick L iv i st))"
        using c6 by (simp add: es'_def)
      show ?thesis
        by (rule exI [of _ es']) (use c1 c2 c3 c4 c5' c6' in blast)
    qed
  qed
qed

lemma tick_pair_invariant:
  assumes "no_repeated_pair None (out st)" and "last_pair None (out st) = last_ack_state st"
  shows "no_repeated_pair None (out (tick L iv i st))
    \<and> last_pair None (out (tick L iv i st)) = last_ack_state (tick L iv i st)"
proof -
  from tick_policy [of L iv i st] obtain es where
    "out (tick L iv i st) = out st @ es"
    "no_repeated_pair (last_ack_state st) es"
    "last_pair (last_ack_state st) es = last_ack_state (tick L iv i st)"
    by blast
  with assms show ?thesis
    by (simp add: no_repeated_pair_append last_pair_append)
qed

lemma run_pair_invariant:
  "no_repeated_pair None (out st) \<Longrightarrow> last_pair None (out st) = last_ack_state st \<Longrightarrow>
   no_repeated_pair None (out (run L iv as st))
   \<and> last_pair None (out (run L iv as st)) = last_ack_state (run L iv as st)"
proof (induction as arbitrary: st)
  case Nil
  then show ?case by simp
next
  case (Cons a as)
  have "no_repeated_pair None (out (act L iv a st))
      \<and> last_pair None (out (act L iv a st)) = last_ack_state (act L iv a st)"
  proof (cases a)
    case (Tick i)
    then show ?thesis using tick_pair_invariant [OF Cons.prems] by simp
  next
    case (Command p)
    then show ?thesis using Cons.prems by (simp add: on_command_def)
  next
    case SettingsEvent
    then show ?thesis using Cons.prems by (simp add: on_settings_def)
  qed
  then show ?case using Cons.IH by simp
qed

text \<open>
  C2, as amended. Every acknowledgement of a tick whose request returned is one of
  three: tagged \<open>cmd\<close>, on a tick that found a pending patch; tagged
  \<open>settings applied\<close>, on a tick before which \<open>settings_applied_acked\<close> was unset; or a
  policy acknowledgement, which carries the tick's resulting (pumpOn, mode) pair and
  becomes \<open>last_ack_state\<close>. A policy acknowledgement is sent only when its pair
  differs from the pair last acknowledged: from \<open>last_ack_state\<close> as it was before the
  tick when the tick found no patch, and from the pair of the tick's \<open>cmd\<close>
  acknowledgement when it found one. \<open>last_ack_state\<close> is the pair of the last
  \<open>cmd\<close> or policy acknowledgement, so over every run from the initial state no policy
  acknowledgement repeats the pair acknowledged before it, and a tick without a patch,
  after the \<open>settings applied\<close> acknowledgement, whose resulting pair equals
  \<open>last_ack_state\<close>, sends no acknowledgement at all. The \<open>settings applied\<close>
  acknowledgement is posted by every tick that gets to line 279 while the flag is unset,
  whatever the settings fetch returned. The flag is set exactly when that request
  returns: a request that raises ends the tick with the flag unset, so that the next
  tick that gets there posts it again, and at most one such request returns in a run.
\<close>

theorem acknowledgement_conditions:
  "(\<forall>b md n. Ack b md n \<in> set (emitted L iv i st) \<longrightarrow>
       (n = ''cmd'' \<and> has_patch st)
       \<or> (n = ''settings applied'' \<and> \<not> settings_applied_acked st)
       \<or> (n = ''sim'' \<and> pump_on (tick L iv i st) = b \<and> mode (tick L iv i st) = Some md
          \<and> last_ack_state (tick L iv i st) = Some (b, md)
          \<and> (has_patch st \<longrightarrow>
               (\<exists>d c. Ack d c ''cmd'' \<in> set (emitted L iv i st) \<and> (d, c) \<noteq> (b, md)))
          \<and> (\<not> has_patch st \<longrightarrow> last_ack_state st \<noteq> Some (b, md))))
   \<and> (\<not> has_patch st \<and> settings_applied_acked st
        \<and> mode (tick L iv i st) = Some m
        \<and> last_ack_state st = Some (pump_on (tick L iv i st), m) \<longrightarrow>
        (\<forall>b md n. Ack b md n \<notin> set (emitted L iv i st)))
   \<and> no_repeated_pair (last_ack_state st) (emitted L iv i st)
   \<and> last_pair (last_ack_state st) (emitted L iv i st) = last_ack_state (tick L iv i st)
   \<and> no_repeated_pair None (out (run L iv as (initial start)))
   \<and> last_pair None (out (run L iv as (initial start)))
       = last_ack_state (run L iv as (initial start))
   \<and> settings_applied_acked (tick L iv i st)
       = (settings_applied_acked st
          \<or> (\<exists>b md. Ack b md ''settings applied'' \<in> set (emitted L iv i st)))
   \<and> (reaches_settings_ack L iv i st \<and> \<not> settings_applied_acked st \<longrightarrow>
        (if applied_ack_ok i
         then \<exists>b md. Ack b md ''settings applied'' \<in> set (emitted L iv i st)
         else tick_error L iv i st = Some RequestException
              \<and> \<not> settings_applied_acked (tick L iv i st)))
   \<and> (reaches_environment L iv i st \<and> \<not> settings_applied_acked st \<longrightarrow>
        (\<exists>b md. Ack b md ''settings applied'' \<in> set (emitted L iv i st)))
   \<and> length (filter is_applied_ack (out (run L iv as (initial start)))) \<le> 1"
proof -
  from tick_acks [of L iv i st] obtain es where
    o: "out (tick L iv i st) = out st @ es"
    and a: "\<forall>b md n. Ack b md n \<in> set es \<longrightarrow>
          (n = ''cmd'' \<and> has_patch st)
          \<or> (n = ''settings applied'' \<and> \<not> settings_applied_acked st)
          \<or> (n = ''sim'' \<and> pump_on (tick L iv i st) = b \<and> mode (tick L iv i st) = Some md
             \<and> (has_patch st \<or> last_ack_state st \<noteq> Some (b, md)))"
    and r: "reaches_environment L iv i st \<and> \<not> settings_applied_acked st \<longrightarrow>
          (\<exists>b md. Ack b md ''settings applied'' \<in> set es)"
    by blast
  from tick_policy [of L iv i st] obtain es' where
    o': "out (tick L iv i st) = out st @ es'"
    and p2: "no_repeated_pair (last_ack_state st) es'"
    and p3: "last_pair (last_ack_state st) es' = last_ack_state (tick L iv i st)"
    and p4: "\<forall>b md. Ack b md ''sim'' \<in> set es' \<longrightarrow>
          last_ack_state (tick L iv i st) = Some (b, md)
          \<and> (has_patch st \<longrightarrow> (\<exists>d c. Ack d c ''cmd'' \<in> set es' \<and> (d, c) \<noteq> (b, md)))
          \<and> (\<not> has_patch st \<longrightarrow> last_ack_state st \<noteq> Some (b, md))"
    and p5: "settings_applied_acked (tick L iv i st)
         = (settings_applied_acked st \<or> (\<exists>b md. Ack b md ''settings applied'' \<in> set es'))"
    and p6: "reaches_settings_ack L iv i st \<and> \<not> settings_applied_acked st \<longrightarrow>
          (if applied_ack_ok i then \<exists>b md. Ack b md ''settings applied'' \<in> set es'
           else tick_error L iv i st = Some RequestException
                \<and> \<not> settings_applied_acked (tick L iv i st))"
    by blast
  have e: "emitted L iv i st = es" using o by (rule emitted_eq)
  have e': "es' = emitted L iv i st" using o o' e by simp
  have 1: "\<forall>b md n. Ack b md n \<in> set (emitted L iv i st) \<longrightarrow>
       (n = ''cmd'' \<and> has_patch st)
       \<or> (n = ''settings applied'' \<and> \<not> settings_applied_acked st)
       \<or> (n = ''sim'' \<and> pump_on (tick L iv i st) = b \<and> mode (tick L iv i st) = Some md
          \<and> last_ack_state (tick L iv i st) = Some (b, md)
          \<and> (has_patch st \<longrightarrow>
               (\<exists>d c. Ack d c ''cmd'' \<in> set (emitted L iv i st) \<and> (d, c) \<noteq> (b, md)))
          \<and> (\<not> has_patch st \<longrightarrow> last_ack_state st \<noteq> Some (b, md)))"
  proof (intro allI impI)
    fix b md n assume m: "Ack b md n \<in> set (emitted L iv i st)"
    then have "Ack b md n \<in> set es" using e by simp
    with a have c: "(n = ''cmd'' \<and> has_patch st)
          \<or> (n = ''settings applied'' \<and> \<not> settings_applied_acked st)
          \<or> (n = ''sim'' \<and> pump_on (tick L iv i st) = b \<and> mode (tick L iv i st) = Some md
             \<and> (has_patch st \<or> last_ack_state st \<noteq> Some (b, md)))"
      by blast
    have s: "n = ''sim'' \<Longrightarrow>
        last_ack_state (tick L iv i st) = Some (b, md)
          \<and> (has_patch st \<longrightarrow>
               (\<exists>d c. Ack d c ''cmd'' \<in> set (emitted L iv i st) \<and> (d, c) \<noteq> (b, md)))
          \<and> (\<not> has_patch st \<longrightarrow> last_ack_state st \<noteq> Some (b, md))"
      using p4 m unfolding e' by blast
    from c s show "(n = ''cmd'' \<and> has_patch st)
       \<or> (n = ''settings applied'' \<and> \<not> settings_applied_acked st)
       \<or> (n = ''sim'' \<and> pump_on (tick L iv i st) = b \<and> mode (tick L iv i st) = Some md
          \<and> last_ack_state (tick L iv i st) = Some (b, md)
          \<and> (has_patch st \<longrightarrow>
               (\<exists>d c. Ack d c ''cmd'' \<in> set (emitted L iv i st) \<and> (d, c) \<noteq> (b, md)))
          \<and> (\<not> has_patch st \<longrightarrow> last_ack_state st \<noteq> Some (b, md)))"
      by blast
  qed
  have 2: "\<not> has_patch st \<and> settings_applied_acked st
        \<and> mode (tick L iv i st) = Some m
        \<and> last_ack_state st = Some (pump_on (tick L iv i st), m) \<longrightarrow>
        (\<forall>b md n. Ack b md n \<notin> set (emitted L iv i st))"
    using a e by fastforce
  have 3: "no_repeated_pair (last_ack_state st) (emitted L iv i st)"
    using p2 unfolding e' .
  have 4: "last_pair (last_ack_state st) (emitted L iv i st) = last_ack_state (tick L iv i st)"
    using p3 unfolding e' .
  have 56: "no_repeated_pair None (out (run L iv as (initial start)))
      \<and> last_pair None (out (run L iv as (initial start)))
          = last_ack_state (run L iv as (initial start))"
    by (rule run_pair_invariant) (simp_all add: initial_def)
  have 7: "settings_applied_acked (tick L iv i st)
       = (settings_applied_acked st
          \<or> (\<exists>b md. Ack b md ''settings applied'' \<in> set (emitted L iv i st)))"
    using p5 unfolding e' .
  have 8: "reaches_settings_ack L iv i st \<and> \<not> settings_applied_acked st \<longrightarrow>
        (if applied_ack_ok i
         then \<exists>b md. Ack b md ''settings applied'' \<in> set (emitted L iv i st)
         else tick_error L iv i st = Some RequestException
              \<and> \<not> settings_applied_acked (tick L iv i st))"
    using p6 unfolding e' .
  have 9: "reaches_environment L iv i st \<and> \<not> settings_applied_acked st \<longrightarrow>
        (\<exists>b md. Ack b md ''settings applied'' \<in> set (emitted L iv i st))"
    using r e by simp
  have "length (filter is_applied_ack (out (run L iv as (initial start))))
      = (if settings_applied_acked (run L iv as (initial start)) then 1 else 0)"
    by (rule run_applied_count) (simp add: initial_def)
  then have 10: "length (filter is_applied_ack (out (run L iv as (initial start)))) \<le> 1"
    by simp
  from 56 have 5: "no_repeated_pair None (out (run L iv as (initial start)))"
    and 6: "last_pair None (out (run L iv as (initial start)))
       = last_ack_state (run L iv as (initial start))"
    by simp_all
  show ?thesis
    by (intro conjI) (rule 1 2 3 4 5 6 7 8 9 10)+
qed

text \<open>
  A first tick finds a patch and sends the three kinds in order; the second tick, with
  nothing changed, sends none. A tick whose request of line 280 raises leaves the flag
  unset, and the next tick posts the acknowledgement again.
\<close>

theorem acknowledgement_conditions_witness:
  "has_patch (on_command [(''pumpOnBelow'', JInt 50)] (initial 40))
   \<and> emitted plain_rt 60 (all_ok (FetchBody (JObj [])) 0 0)
        (on_command [(''pumpOnBelow'', JInt 50)] (initial 40))
       = [Ack True ''auto'' ''cmd'', Ack True ''auto'' ''settings applied'',
          Reading 40 True 2480]
   \<and> \<not> has_patch (tick plain_rt 60 (all_ok (FetchBody (JObj [])) 0 0) (initial 40))
   \<and> settings_applied_acked (tick plain_rt 60 (all_ok (FetchBody (JObj [])) 0 0) (initial 40))
   \<and> last_ack_state (tick plain_rt 60 (all_ok (FetchBody (JObj [])) 0 0) (initial 40))
       = Some (False, ''auto'')
   \<and> emitted plain_rt 60 (all_ok (FetchBody (JObj [])) 0 0)
        (tick plain_rt 60 (all_ok (FetchBody (JObj [])) 0 0) (initial 40))
       = [Reading 40 False 2480]
   \<and> reaches_settings_ack plain_rt 60
        ((all_ok (FetchBody (JObj [])) 0 0)\<lparr>applied_ack_ok := False\<rparr>) (initial 40)
   \<and> \<not> settings_applied_acked (initial 40)
   \<and> tick_error plain_rt 60
        ((all_ok (FetchBody (JObj [])) 0 0)\<lparr>applied_ack_ok := False\<rparr>) (initial 40)
       = Some RequestException
   \<and> emitted plain_rt 60 (all_ok (FetchBody (JObj [])) 0 0)
        (tick plain_rt 60
          ((all_ok (FetchBody (JObj [])) 0 0)\<lparr>applied_ack_ok := False\<rparr>) (initial 40))
       = [Ack False ''auto'' ''settings applied'', Ack False ''auto'' ''sim'',
          Reading 40 False 2480]
   \<and> length (filter is_applied_ack
        (out (run plain_rt 60
               [Tick (all_ok (FetchBody (JObj [])) 0 0), Tick (all_ok (FetchBody (JObj [])) 0 0)]
               (initial 40)))) = 1"
  using acknowledgement_conditions
    [where L = plain_rt and iv = 60 and i = "all_ok (FetchBody (JObj [])) 0 0"
       and st = "on_command [(''pumpOnBelow'', JInt 50)] (initial 40)"
       and m = "''auto''" and start = 40 and as = "[]"]
    acknowledgement_conditions
    [where L = plain_rt and iv = 60 and i = "all_ok (FetchBody (JObj [])) 0 0"
       and st = "tick plain_rt 60 (all_ok (FetchBody (JObj [])) 0 0) (initial 40)"
       and m = "''auto''" and start = 40
       and as = "[Tick (all_ok (FetchBody (JObj [])) 0 0), Tick (all_ok (FetchBody (JObj [])) 0 0)]"]
    acknowledgement_conditions
    [where L = plain_rt and iv = 60
       and i = "(all_ok (FetchBody (JObj [])) 0 0)\<lparr>applied_ack_ok := False\<rparr>"
       and st = "initial 40" and m = "''auto''" and start = 40 and as = "[]"]
  by (simp add: eval_defs has_patch_def reaches_settings_ack_def)

text \<open>
  C2 as stated fails: a first tick whose settings fetch returns a status that is not OK
  sends the \<open>settings applied\<close> acknowledgement, and the next tick, whose fetch is the
  first to succeed, sends none.
\<close>

theorem settings_applied_without_fetch_counterexample:
  "fetch (all_ok FetchNotOk 0 0) = FetchNotOk
   \<and> emitted plain_rt 60 (all_ok FetchNotOk 0 0) (initial 40)
       = [Ack False ''auto'' ''settings applied'', Ack False ''auto'' ''sim'',
          Reading 40 False 2480]
   \<and> emitted plain_rt 60 (all_ok (FetchBody (JObj [(''pumpMode'', JStr ''auto'')])) 0 0)
        (tick plain_rt 60 (all_ok FetchNotOk 0 0) (initial 40))
       = [Reading 40 False 2480]"
  by (simp add: eval_defs)

end
